theory Spec2Isabelle
  imports Main
begin

section \<open>Package cfg: configuration loading with environment override\<close>

text \<open>
  A shallow embedding of \<^verbatim>\<open>cfg.go\<close>. Go strings are byte strings, so they are
  \<^typ>\<open>string\<close> here. What the package takes from the Go runtime and standard library
  (\<^verbatim>\<open>strings\<close>, \<^verbatim>\<open>strconv\<close>, \<^verbatim>\<open>reflect\<close>, \<^verbatim>\<open>os\<close>) is modelled in the first
  subsections, the package itself after them.
\<close>

subsection \<open>Errors\<close>

datatype errno = ErrSyntax | ErrRange

text \<open>
  \<^verbatim>\<open>reflect.Kind\<close>. The kind \<^verbatim>\<open>Int\<close> is \<open>Int_kind\<close> here, \<open>Int\<close> being taken.
\<close>

datatype Kind =
    Invalid | Bool | Int_kind | Int8 | Int16 | Int32 | Int64
  | Uint | Uint8 | Uint16 | Uint32 | Uint64 | Uintptr
  | Float32 | Float64 | Complex64 | Complex128
  | Array | Chan | Func | Interface | Map | Pointer | Slice
  | String | Struct | UnsafePointer

text \<open>
  \<open>NumError f s e\<close> is \<^verbatim>\<open>&strconv.NumError{Func: f, Num: s, Err: e}\<close>; \<open>Errorf m\<close> is
  \<^verbatim>\<open>fmt.Errorf(m)\<close> for a constant message; the other constructors are the
  \<^verbatim>\<open>fmt.Errorf\<close> calls of the package that format or wrap their arguments;
  \<open>External m\<close> is an error of the operating system or of the YAML decoder.
\<close>

datatype error =
    NumError string string errno
  | Errorf string
  | UnsupportedType Kind
  | SetFieldError string string error
  | InvalidConfig error
  | UnloadConfigFile error
  | LoadEnv error
  | UnreadFile string error
  | UnparseYaml string error
  | External string

subsection \<open>Package strings\<close>

definition byte :: "char \<Rightarrow> nat" where
  "byte c = of_char c"

text \<open>\<^verbatim>\<open>strings.HasSuffix\<close> and \<^verbatim>\<open>strings.TrimSuffix\<close>.\<close>

definition HasSuffix :: "string \<Rightarrow> string \<Rightarrow> bool" where
  "HasSuffix s suffix =
     (length s \<ge> length suffix \<and> drop (length s - length suffix) s = suffix)"

definition TrimSuffix :: "string \<Rightarrow> string \<Rightarrow> string" where
  "TrimSuffix s suffix =
     (if HasSuffix s suffix then take (length s - length suffix) s else s)"

text \<open>
  \<^verbatim>\<open>strings.ToUpper\<close>: a string of bytes below \<^verbatim>\<open>utf8.RuneSelf\<close> (0x80) has its
  bytes \<^verbatim>\<open>'a'..'z'\<close> lowered by \<^verbatim>\<open>'a' - 'A'\<close>; any other string goes through
  \<^verbatim>\<open>Map(unicode.ToUpper, s)\<close>, whose Unicode tables are not modelled: that function
  is the parameter \<open>U\<close>.
\<close>

definition isASCII :: "string \<Rightarrow> bool" where
  "isASCII s = list_all (\<lambda>c. byte c < 128) s"

definition upperByte :: "char \<Rightarrow> char" where
  "upperByte c = (if 97 \<le> byte c \<and> byte c \<le> 122 then char_of (byte c - 32) else c)"

definition ToUpper :: "(string \<Rightarrow> string) \<Rightarrow> string \<Rightarrow> string" where
  "ToUpper U s = (if isASCII s then map upperByte s else U s)"

subsection \<open>Package strconv\<close>

text \<open>
  \<^verbatim>\<open>strconv.ParseBool\<close>:
  \<^verbatim>\<open>
  switch str {
  case "1", "t", "T", "true", "TRUE", "True":  return true, nil
  case "0", "f", "F", "false", "FALSE", "False": return false, nil
  }
  return false, syntaxError("ParseBool", str)
  \<close>
\<close>

definition ParseBool :: "string \<Rightarrow> error + bool" where
  "ParseBool str =
     (if str \<in> set [''1'', ''t'', ''T'', ''true'', ''TRUE'', ''True''] then Inr True
      else if str \<in> set [''0'', ''f'', ''F'', ''false'', ''FALSE'', ''False''] then Inr False
      else Inl (NumError ''ParseBool'' str ErrSyntax))"

text \<open>
  \<^verbatim>\<open>strconv.ParseUint(s, 10, bitSize)\<close> for \<^verbatim>\<open>1 <= bitSize <= 64\<close>. The loop runs over
  the bytes of \<open>s\<close> with the accumulator \<open>n\<close>, a \<^verbatim>\<open>uint64\<close>: a byte that is not a
  decimal digit is a syntax error (base 10 admits no underscore and no letter);
  \<^verbatim>\<open>n >= cutoff\<close>, with \<^verbatim>\<open>cutoff = maxUint64/10 + 1\<close>, is a range error; then
  \<^verbatim>\<open>n *= 10; n1 := n + d\<close> in 64-bit arithmetic, and \<^verbatim>\<open>n1 < n || n1 > maxVal\<close> is a
  range error. The value Go returns beside an error is dropped: no caller here reads it.
\<close>

definition maxUint64 :: nat where
  "maxUint64 = 2 ^ 64 - 1"

definition isDigit :: "char \<Rightarrow> bool" where
  "isDigit c = (48 \<le> byte c \<and> byte c \<le> 57)"

fun ParseUint_loop :: "nat \<Rightarrow> nat \<Rightarrow> string \<Rightarrow> errno + nat" where
  "ParseUint_loop maxVal n [] = Inr n"
| "ParseUint_loop maxVal n (c # cs) =
     (if \<not> isDigit c then Inl ErrSyntax
      else if n \<ge> maxUint64 div 10 + 1 then Inl ErrRange
      else let n10 = (n * 10) mod 2 ^ 64;
               n1 = (n10 + (byte c - 48)) mod 2 ^ 64
           in if n1 < n10 \<or> n1 > maxVal then Inl ErrRange
              else ParseUint_loop maxVal n1 cs)"

definition ParseUint_10 :: "string \<Rightarrow> nat \<Rightarrow> errno + nat" where
  "ParseUint_10 s bitSize =
     (if s = [] then Inl ErrSyntax
      else ParseUint_loop (2 ^ bitSize - 1) 0 s)"

definition ParseUint :: "string \<Rightarrow> nat \<Rightarrow> error + nat" where
  "ParseUint s bitSize =
     (case ParseUint_10 s bitSize of
        Inl e \<Rightarrow> Inl (NumError ''ParseUint'' s e)
      | Inr n \<Rightarrow> Inr n)"

text \<open>
  \<^verbatim>\<open>strconv.ParseInt(s, 10, bitSize)\<close>: the empty string is a syntax error; a leading
  \<^verbatim>\<open>'+'\<close> or \<^verbatim>\<open>'-'\<close> is picked off; the rest goes to \<^verbatim>\<open>ParseUint\<close>, whose syntax
  error is returned and whose range error leaves \<^verbatim>\<open>un = maxVal\<close>; then
  \<^verbatim>\<open>!neg && un >= cutoff\<close> and \<^verbatim>\<open>neg && un > cutoff\<close>, with
  \<^verbatim>\<open>cutoff = 1 << (bitSize-1)\<close>, are range errors.
\<close>

definition ParseInt :: "string \<Rightarrow> nat \<Rightarrow> error + int" where
  "ParseInt s0 bitSize =
     (if s0 = [] then Inl (NumError ''ParseInt'' s0 ErrSyntax)
      else let neg = (hd s0 = CHR ''-'');
               s = (if hd s0 = CHR ''+'' \<or> hd s0 = CHR ''-'' then tl s0 else s0);
               cutoff = 2 ^ (bitSize - 1)
           in case ParseUint_10 s bitSize of
                Inl ErrSyntax \<Rightarrow> Inl (NumError ''ParseInt'' s0 ErrSyntax)
              | Inl ErrRange \<Rightarrow> Inl (NumError ''ParseInt'' s0 ErrRange)
              | Inr un \<Rightarrow>
                  if \<not> neg \<and> un \<ge> cutoff then Inl (NumError ''ParseInt'' s0 ErrRange)
                  else if neg \<and> un > cutoff then Inl (NumError ''ParseInt'' s0 ErrRange)
                  else Inr (if neg then - int un else int un))"

subsection \<open>Package reflect: struct fields and values\<close>

text \<open>
  \<^verbatim>\<open>reflect.StructField\<close>, with the fields the package reads: the name, the package
  path (empty exactly for an exported field) and the tag, the list of its
  \<^verbatim>\<open>key:"value"\<close> pairs in the order they are written. \<^verbatim>\<open>Tag.Get\<close> returns the
  value of the first pair with the key, and the empty string when there is none.
\<close>

record StructField =
  Name :: string
  PkgPath :: string
  Tag :: "(string \<times> string) list"

definition IsExported :: "StructField \<Rightarrow> bool" where
  "IsExported f = (PkgPath f = [])"

definition Tag_Get :: "(string \<times> string) list \<Rightarrow> string \<Rightarrow> string" where
  "Tag_Get tag key = (case map_of tag key of None \<Rightarrow> [] | Some v \<Rightarrow> v)"

text \<open>
  The widths of the integer and floating-point kinds: \<open>Native\<close> is \<^verbatim>\<open>int\<close> and
  \<^verbatim>\<open>uint\<close>, whose width is the platform's.
\<close>

datatype isize = Native | Bits8 | Bits16 | Bits32 | Bits64

datatype fsize = Single | Double

text \<open>The kinds that \<^verbatim>\<open>setFieldFromEnv\<close> has no case for.\<close>

datatype okind =
    KUintptr | KComplex64 | KComplex128 | KArray | KChan | KFunc | KInterface
  | KMap | KPointer | KSlice | KUnsafePointer

text \<open>
  A value reached by reflection: a scalar with its width and content, a struct with its
  fields in declaration order (each with its \<^verbatim>\<open>StructField\<close>), or a value of
  another kind, whose content the package never reads. The type \<open>'f\<close> is that of
  floating-point numbers, which are not modelled.
\<close>

datatype 'f val =
    VBool bool
  | VInt isize int
  | VUint isize nat
  | VFloat fsize 'f
  | VString string
  | VStruct "(StructField \<times> 'f val) list"
  | VOther okind

type_synonym 'f fields = "(StructField \<times> 'f val) list"

fun Kind_int :: "isize \<Rightarrow> Kind" where
  "Kind_int Native = Int_kind"
| "Kind_int Bits8 = Int8"
| "Kind_int Bits16 = Int16"
| "Kind_int Bits32 = Int32"
| "Kind_int Bits64 = Int64"

fun Kind_uint :: "isize \<Rightarrow> Kind" where
  "Kind_uint Native = Uint"
| "Kind_uint Bits8 = Uint8"
| "Kind_uint Bits16 = Uint16"
| "Kind_uint Bits32 = Uint32"
| "Kind_uint Bits64 = Uint64"

fun Kind_other :: "okind \<Rightarrow> Kind" where
  "Kind_other KUintptr = Uintptr"
| "Kind_other KComplex64 = Complex64"
| "Kind_other KComplex128 = Complex128"
| "Kind_other KArray = Array"
| "Kind_other KChan = Chan"
| "Kind_other KFunc = Func"
| "Kind_other KInterface = Interface"
| "Kind_other KMap = Map"
| "Kind_other KPointer = Pointer"
| "Kind_other KSlice = Slice"
| "Kind_other KUnsafePointer = UnsafePointer"

fun Kind_of :: "'f val \<Rightarrow> Kind" where
  "Kind_of (VBool _) = Bool"
| "Kind_of (VInt w _) = Kind_int w"
| "Kind_of (VUint w _) = Kind_uint w"
| "Kind_of (VFloat Single _) = Float32"
| "Kind_of (VFloat Double _) = Float64"
| "Kind_of (VString _) = String"
| "Kind_of (VStruct _) = Struct"
| "Kind_of (VOther k) = Kind_other k"

text \<open>
  What is taken from the Go runtime and library without being modelled: the width of
  \<^verbatim>\<open>int\<close> (\<^verbatim>\<open>strconv.IntSize\<close>, 32 or 64), \<^verbatim>\<open>strconv.ParseFloat(s, 64)\<close>, the
  conversion \<^verbatim>\<open>float32(x)\<close>, \<^verbatim>\<open>Map(unicode.ToUpper, s)\<close>, \<^verbatim>\<open>filepath.Join\<close> of two
  elements, and \<^verbatim>\<open>yaml.Unmarshal\<close> into a struct (the fields as it leaves them, and
  its error).
\<close>

record 'f golib =
  IntSize :: nat
  ParseFloat_64 :: "string \<Rightarrow> error + 'f"
  float32 :: "'f \<Rightarrow> 'f"
  unicode_ToUpper :: "string \<Rightarrow> string"
  filepath_Join :: "string \<Rightarrow> string \<Rightarrow> string"
  yaml_Unmarshal :: "string \<Rightarrow> 'f fields \<Rightarrow> 'f fields \<times> error option"

fun bits :: "nat \<Rightarrow> isize \<Rightarrow> nat" where
  "bits n Native = n"
| "bits n Bits8 = 8"
| "bits n Bits16 = 16"
| "bits n Bits32 = 32"
| "bits n Bits64 = 64"

text \<open>
  \<^verbatim>\<open>Value.SetInt(x)\<close> stores \<^verbatim>\<open>int8(x)\<close>, \<^verbatim>\<open>int16(x)\<close>, ... according to the kind:
  the conversion keeps the low bits of \<open>x\<close> and reads them as a signed number.
  \<^verbatim>\<open>Value.SetUint(x)\<close> keeps the low bits. Neither reports an overflow.
\<close>

definition wrap_signed :: "nat \<Rightarrow> int \<Rightarrow> int" where
  "wrap_signed w x = (x + 2 ^ (w - 1)) mod 2 ^ w - 2 ^ (w - 1)"

definition wrap_unsigned :: "nat \<Rightarrow> nat \<Rightarrow> nat" where
  "wrap_unsigned w x = x mod 2 ^ w"

definition SetInt :: "'f golib \<Rightarrow> isize \<Rightarrow> int \<Rightarrow> 'f val" where
  "SetInt lib w x = VInt w (wrap_signed (bits (IntSize lib) w) x)"

definition SetUint :: "'f golib \<Rightarrow> isize \<Rightarrow> nat \<Rightarrow> 'f val" where
  "SetUint lib w x = VUint w (wrap_unsigned (bits (IntSize lib) w) x)"

fun SetFloat :: "'f golib \<Rightarrow> fsize \<Rightarrow> 'f \<Rightarrow> 'f val" where
  "SetFloat lib Single x = VFloat Single (float32 lib x)"
| "SetFloat lib Double x = VFloat Double x"

subsection \<open>Package os\<close>

text \<open>
  The environment is a map from names to values. \<^verbatim>\<open>os.LookupEnv\<close> goes through
  \<^verbatim>\<open>syscall.Getenv\<close>, which answers "not found" for the empty name before it looks
  at the environment. \<^verbatim>\<open>os.ReadFile\<close> finds no file, fails otherwise, or returns
  the contents.
\<close>

definition LookupEnv :: "(string \<rightharpoonup> string) \<Rightarrow> string \<Rightarrow> string option" where
  "LookupEnv env key = (if key = [] then None else env key)"

datatype readres = NotExist | ReadError error | Contents string

record os =
  files :: "string \<Rightarrow> readres"
  environ :: "string \<rightharpoonup> string"

text \<open>What a call does to the world outside the record, in order.\<close>

datatype event = EvReadFile string | EvLookupEnv string

subsection \<open>Parameters and options\<close>

text \<open>
  The struct \<^verbatim>\<open>parameters\<close>; its fields \<^verbatim>\<open>paths\<close>, \<^verbatim>\<open>name\<close> and \<^verbatim>\<open>envPrefix\<close>
  carry the prefix \<open>params_\<close> here. An \<^verbatim>\<open>Action\<close> is a function on it.
\<close>

record parameters =
  params_paths :: "string list"
  params_name :: string
  params_envPrefix :: string

type_synonym Action = "parameters \<Rightarrow> parameters"

definition WithPaths :: "string list \<Rightarrow> Action" where
  "WithPaths paths = (\<lambda>params. params\<lparr>params_paths := paths\<rparr>)"

definition WithName :: "string \<Rightarrow> Action" where
  "WithName name = (\<lambda>params. params\<lparr>params_name := name\<rparr>)"

definition WithEnvPrefix :: "'f golib \<Rightarrow> string \<Rightarrow> Action" where
  "WithEnvPrefix lib prefix =
     (\<lambda>params. params\<lparr>params_envPrefix :=
        TrimSuffix (ToUpper (unicode_ToUpper lib) prefix) ''_''\<rparr>)"

definition defaultParameters :: parameters where
  "defaultParameters =
     \<lparr>params_paths = [''.'', ''./config''], params_name = ''config'',
      params_envPrefix = ''APP''\<rparr>"

subsection \<open>The environment pass\<close>

definition getEnvVarName :: "'f golib \<Rightarrow> StructField \<Rightarrow> string \<Rightarrow> string" where
  "getEnvVarName lib field envPrefix =
     (let envTag = Tag_Get (Tag field) ''env''
      in if envTag \<noteq> [] then
           (let envName = ToUpper (unicode_ToUpper lib) envTag
            in if envPrefix \<noteq> [] then envPrefix @ ''_'' @ envName else envName)
         else [])"

text \<open>
  \<^verbatim>\<open>setFieldFromEnv\<close> switches on the kind of the field; the result is the field after
  the call, or the error, in which case the field is as it was. Integers are parsed
  with bit size 64 whatever the width of the field.
\<close>

fun setFieldFromEnv :: "'f golib \<Rightarrow> 'f val \<Rightarrow> string \<Rightarrow> error + 'f val" where
  "setFieldFromEnv lib (VString _) v = Inr (VString v)"
| "setFieldFromEnv lib (VInt w _) v =
     (case ParseInt v 64 of Inl err \<Rightarrow> Inl err | Inr intVal \<Rightarrow> Inr (SetInt lib w intVal))"
| "setFieldFromEnv lib (VUint w _) v =
     (case ParseUint v 64 of Inl err \<Rightarrow> Inl err | Inr uintVal \<Rightarrow> Inr (SetUint lib w uintVal))"
| "setFieldFromEnv lib (VFloat w _) v =
     (case ParseFloat_64 lib v of Inl err \<Rightarrow> Inl err
      | Inr floatVal \<Rightarrow> Inr (SetFloat lib w floatVal))"
| "setFieldFromEnv lib (VBool _) v =
     (case ParseBool v of Inl err \<Rightarrow> Inl err | Inr boolVal \<Rightarrow> Inr (VBool boolVal))"
| "setFieldFromEnv lib field v = Inl (UnsupportedType (Kind_of field))"

text \<open>
  \<^verbatim>\<open>loadStructFromEnv\<close> runs over the fields of a struct that is itself settable (the
  pointee of the argument, or a field the pass has found settable), so a field of it
  \<^verbatim>\<open>CanSet\<close> exactly when it is exported. \<open>loadStructFromEnv_field\<close> is the body of
  the loop for one field. Both return the fields as the call leaves them (the Go code
  writes in place, also before an error), the lookups made, and the error.
\<close>

definition CanSet :: "StructField \<Rightarrow> bool" where
  "CanSet structField = IsExported structField"

function loadStructFromEnv ::
    "'f golib \<Rightarrow> (string \<rightharpoonup> string) \<Rightarrow> 'f fields \<Rightarrow> string
       \<Rightarrow> 'f fields \<times> event list \<times> error option"
  and loadStructFromEnv_field ::
    "'f golib \<Rightarrow> (string \<rightharpoonup> string) \<Rightarrow> StructField \<times> 'f val \<Rightarrow> string
       \<Rightarrow> (StructField \<times> 'f val) \<times> event list \<times> error option"
where
  "loadStructFromEnv lib env [] envPrefix = ([], [], None)"
| "loadStructFromEnv lib env (f # rest) envPrefix =
     (case loadStructFromEnv_field lib env f envPrefix of
        (f', tr, Some err) \<Rightarrow> (f' # rest, tr, Some err)
      | (f', tr, None) \<Rightarrow>
          (case loadStructFromEnv lib env rest envPrefix of
             (rest', tr', r) \<Rightarrow> (f' # rest', tr @ tr', r)))"
| "loadStructFromEnv_field lib env (structField, field) envPrefix =
     (if \<not> CanSet structField then ((structField, field), [], None)
      else case field of
        VStruct inner \<Rightarrow>
          (case loadStructFromEnv lib env inner envPrefix of
             (inner', tr, r) \<Rightarrow> ((structField, VStruct inner'), tr, r))
      | _ \<Rightarrow>
          (let envVar = getEnvVarName lib structField envPrefix
           in case LookupEnv env envVar of
                None \<Rightarrow> ((structField, field), [EvLookupEnv envVar], None)
              | Some envValue \<Rightarrow>
                  (case setFieldFromEnv lib field envValue of
                     Inl err \<Rightarrow>
                       ((structField, field), [EvLookupEnv envVar],
                        Some (SetFieldError (Name structField) envVar err))
                   | Inr field' \<Rightarrow> ((structField, field'), [EvLookupEnv envVar], None))))"
  by pat_completeness auto
termination
  by (relation "measure (\<lambda>x. case x of
        Inl (lib, env, fs, p) \<Rightarrow> size_list (size_prod (\<lambda>_. 0) size) fs
      | Inr (lib, env, (sf, v), p) \<Rightarrow> size v)") auto

subsection \<open>Load\<close>

text \<open>
  The argument of \<^verbatim>\<open>Load\<close>, of type \<^verbatim>\<open>any\<close>: the nil interface, a value that is
  not a pointer, a nil pointer, or a pointer to a value. A call returns the argument
  as it leaves what it points to.
\<close>

datatype 'f any = NilInterface | Value "'f val" | NilPointer | PointerTo "'f val"

fun validateConfig :: "'f any \<Rightarrow> error option" where
  "validateConfig NilInterface = Some (Errorf ''config must not be nil'')"
| "validateConfig (Value v) = Some (Errorf ''config must be a pointer to struct'')"
| "validateConfig NilPointer = Some (Errorf ''config pointer must not be nil'')"
| "validateConfig (PointerTo v) =
     (if Kind_of v \<noteq> Struct then Some (Errorf ''config must be a pointer to struct'')
      else None)"

text \<open>
  \<^verbatim>\<open>loadFromYaml\<close> and \<^verbatim>\<open>loadFromEnv\<close> are reached with a pointer to a struct only;
  they are given its fields.
\<close>

fun loadFromYaml_paths ::
    "'f golib \<Rightarrow> os \<Rightarrow> 'f fields \<Rightarrow> string \<Rightarrow> string list
       \<Rightarrow> 'f fields \<times> event list \<times> error option" where
  "loadFromYaml_paths lib os cfg name [] = (cfg, [], None)"
| "loadFromYaml_paths lib os cfg name (path # rest) =
     (let fullName = filepath_Join lib path (name @ ''.yaml'')
      in case files os fullName of
           NotExist \<Rightarrow>
             (case loadFromYaml_paths lib os cfg name rest of
                (cfg', tr, r) \<Rightarrow> (cfg', EvReadFile fullName # tr, r))
         | ReadError err \<Rightarrow> (cfg, [EvReadFile fullName], Some (UnreadFile fullName err))
         | Contents data \<Rightarrow>
             (case yaml_Unmarshal lib data cfg of
                (cfg', Some err) \<Rightarrow>
                  (cfg', [EvReadFile fullName], Some (UnparseYaml fullName err))
              | (cfg', None) \<Rightarrow> (cfg', [EvReadFile fullName], None)))"

definition loadFromYaml ::
    "'f golib \<Rightarrow> os \<Rightarrow> 'f fields \<Rightarrow> parameters \<Rightarrow> 'f fields \<times> event list \<times> error option" where
  "loadFromYaml lib os cfg params =
     loadFromYaml_paths lib os cfg (params_name params) (params_paths params)"

definition loadFromEnv ::
    "'f golib \<Rightarrow> os \<Rightarrow> 'f fields \<Rightarrow> parameters \<Rightarrow> 'f fields \<times> event list \<times> error option" where
  "loadFromEnv lib os cfg params =
     loadStructFromEnv lib (environ os) cfg (params_envPrefix params)"

text \<open>
  After \<^verbatim>\<open>validateConfig\<close> has returned no error the argument is a pointer to a
  struct; the last case of \<open>Load\<close> is there for totality and is never reached.
\<close>

definition Load ::
    "'f golib \<Rightarrow> os \<Rightarrow> 'f any \<Rightarrow> Action list \<Rightarrow> 'f any \<times> event list \<times> error option" where
  "Load lib os cfg paramsActions =
     (case validateConfig cfg of
        Some err \<Rightarrow> (cfg, [], Some (InvalidConfig err))
      | None \<Rightarrow>
          (case cfg of
             PointerTo (VStruct fs) \<Rightarrow>
               (let p = foldl (\<lambda>p paramAction. paramAction p) defaultParameters paramsActions
                in case loadFromYaml lib os fs p of
                     (fs1, tr1, Some err) \<Rightarrow>
                       (PointerTo (VStruct fs1), tr1, Some (UnloadConfigFile err))
                   | (fs1, tr1, None) \<Rightarrow>
                       (case loadFromEnv lib os fs1 p of
                          (fs2, tr2, Some err) \<Rightarrow>
                            (PointerTo (VStruct fs2), tr1 @ tr2, Some (LoadEnv err))
                        | (fs2, tr2, None) \<Rightarrow>
                            (PointerTo (VStruct fs2), tr1 @ tr2, None)))
           | _ \<Rightarrow> (cfg, [], None)))"

subsection \<open>Fields by position\<close>

text \<open>
  A field of a record is named by its path: the index of a field at the top, then the
  index inside that field when it is a struct, and so on. \<open>fieldAt\<close> reads the field at
  a path; \<open>settableAt\<close> says that the pass can set it: the field and every struct
  field around it are exported.
\<close>

fun fieldAt :: "'f fields \<Rightarrow> nat list \<Rightarrow> (StructField \<times> 'f val) option" where
  "fieldAt fs [] = None"
| "fieldAt fs [i] = (if i < length fs then Some (fs ! i) else None)"
| "fieldAt fs (i # j # js) =
     (if i < length fs then
        (case snd (fs ! i) of VStruct inner \<Rightarrow> fieldAt inner (j # js) | _ \<Rightarrow> None)
      else None)"

fun settableAt :: "'f fields \<Rightarrow> nat list \<Rightarrow> bool" where
  "settableAt fs [] = False"
| "settableAt fs [i] = (i < length fs \<and> CanSet (fst (fs ! i)))"
| "settableAt fs (i # j # js) =
     (i < length fs \<and> CanSet (fst (fs ! i)) \<and>
      (case snd (fs ! i) of VStruct inner \<Rightarrow> settableAt inner (j # js) | _ \<Rightarrow> False))"

definition isScalar :: "'f val \<Rightarrow> bool" where
  "isScalar v = (Kind_of v \<noteq> Struct)"

subsection \<open>Decimal literals\<close>

text \<open>
  What the parsing table of the specification calls a base-10 literal, stated apart
  from the parsers: a non-empty string of decimal digits, its value, and the same with
  an optional sign. \<open>fitsSigned w x\<close> says that \<open>x\<close> is a signed number of \<open>w\<close> bits.
\<close>

definition digitVal :: "char \<Rightarrow> nat" where
  "digitVal c = byte c - 48"

definition decimal_from :: "nat \<Rightarrow> string \<Rightarrow> nat" where
  "decimal_from n s = foldl (\<lambda>n c. 10 * n + digitVal c) n s"

definition decimal :: "string \<Rightarrow> nat" where
  "decimal s = decimal_from 0 s"

definition isDigits :: "string \<Rightarrow> bool" where
  "isDigits s = (s \<noteq> [] \<and> list_all isDigit s)"

definition intLiteral :: "string \<Rightarrow> int option" where
  "intLiteral s =
     (case s of
        [] \<Rightarrow> None
      | c # cs \<Rightarrow>
          if c = CHR ''-'' then (if isDigits cs then Some (- int (decimal cs)) else None)
          else if c = CHR ''+'' then (if isDigits cs then Some (int (decimal cs)) else None)
          else if isDigits s then Some (int (decimal s)) else None)"

definition fitsSigned :: "nat \<Rightarrow> int \<Rightarrow> bool" where
  "fitsSigned w x = (- (2 ^ (w - 1)) \<le> x \<and> x < 2 ^ (w - 1))"

subsection \<open>Valid literals and letter case\<close>

text \<open>
  The parsing table of the specification, stated apart from the parsers:
  \<open>literal_value lib v s\<close> is the value that the literal \<open>s\<close> denotes for a field
  of the kind of \<open>v\<close>, when \<open>s\<close> is a valid literal for that kind. A string field
  takes any string; a signed integer field a base-10 literal, with an optional sign,
  that fits the declared width of the field; an unsigned integer field a string of
  digits that fits the declared width; a boolean field one of the twelve tokens. The
  floating-point literals are those that the library's parser accepts (their syntax is
  not modelled), and a 32-bit field holds the parsed number rounded to 32 bits.
\<close>

fun literal_value :: "'f golib \<Rightarrow> 'f val \<Rightarrow> string \<Rightarrow> 'f val option" where
  "literal_value lib (VString _) s = Some (VString s)"
| "literal_value lib (VInt w _) s =
     (case intLiteral s of
        Some x \<Rightarrow> if fitsSigned (bits (IntSize lib) w) x then Some (VInt w x) else None
      | None \<Rightarrow> None)"
| "literal_value lib (VUint w _) s =
     (if isDigits s \<and> decimal s < 2 ^ bits (IntSize lib) w
      then Some (VUint w (decimal s)) else None)"
| "literal_value lib (VFloat w _) s =
     (case ParseFloat_64 lib s of Inr x \<Rightarrow> Some (SetFloat lib w x) | Inl _ \<Rightarrow> None)"
| "literal_value lib (VBool _) s =
     (if s \<in> set [''1'', ''t'', ''T'', ''TRUE'', ''true'', ''True''] then Some (VBool True)
      else if s \<in> set [''0'', ''f'', ''F'', ''FALSE'', ''false'', ''False'']
      then Some (VBool False)
      else None)"
| "literal_value lib (VStruct _) s = None"
| "literal_value lib (VOther _) s = None"

text \<open>
  Two strings differ only in letter case when they have the same length and, position
  by position, the same byte or the two cases of one ASCII letter.
\<close>

definition isLetter :: "char \<Rightarrow> bool" where
  "isLetter c = ((65 \<le> byte c \<and> byte c \<le> 90) \<or> (97 \<le> byte c \<and> byte c \<le> 122))"

definition differOnlyInCase :: "string \<Rightarrow> string \<Rightarrow> bool" where
  "differOnlyInCase x y =
     list_all2 (\<lambda>a b. a = b \<or>
        (isLetter a \<and> isLetter b \<and> (byte a = byte b + 32 \<or> byte b = byte a + 32))) x y"

subsection \<open>Example inputs\<close>

text \<open>
  A library on a 64-bit platform whose float parser accepts nothing, and an exported
  field with an \<^verbatim>\<open>env\<close> tag; they serve as concrete inputs.
\<close>

definition example_lib :: "unit golib" where
  "example_lib =
     \<lparr>IntSize = 64,
      ParseFloat_64 = (\<lambda>s. Inl (NumError ''ParseFloat'' s ErrSyntax)),
      float32 = (\<lambda>x. x),
      unicode_ToUpper = (\<lambda>s. s),
      filepath_Join = (\<lambda>dir file. dir @ ''/'' @ file),
      yaml_Unmarshal = (\<lambda>data fs. (fs, None))\<rparr>"

definition example_field :: "string \<Rightarrow> string \<Rightarrow> StructField" where
  "example_field n k = \<lparr>Name = n, PkgPath = [], Tag = [(''env'', k)]\<rparr>"

section \<open>The parsers and the literals\<close>

lemma decimal_from_Nil [simp]: "decimal_from n [] = n"
  by (simp add: decimal_from_def)

lemma decimal_from_Cons [simp]:
  "decimal_from n (c # cs) = decimal_from (10 * n + digitVal c) cs"
  by (simp add: decimal_from_def)

lemma decimal_from_ge: "n \<le> decimal_from n cs"
proof (induction cs arbitrary: n)
  case Nil
  show ?case by simp
next
  case (Cons c cs)
  have "n \<le> 10 * n + digitVal c" by simp
  also have "\<dots> \<le> decimal_from (10 * n + digitVal c) cs" by (rule Cons.IH)
  finally show ?case by simp
qed

lemma digitVal_le: "isDigit c \<Longrightarrow> digitVal c \<le> 9"
  by (auto simp: isDigit_def digitVal_def)

lemma ParseUint_loop_digits:
  assumes "list_all isDigit cs" and "maxVal \<le> maxUint64" and "n \<le> maxVal"
  shows "ParseUint_loop maxVal n cs =
           (if decimal_from n cs \<le> maxVal then Inr (decimal_from n cs) else Inl ErrRange)"
  using assms(1) assms(3)
proof (induction cs arbitrary: n)
  case Nil
  then show ?case by simp
next
  case (Cons c cs)
  then have dig: "isDigit c" and rest: "list_all isDigit cs" by simp_all
  have d9: "digitVal c \<le> 9" using dig by (rule digitVal_le)
  have mv: "maxVal < 2 ^ 64" using assms(2) by (simp add: maxUint64_def)
  show ?case
  proof (cases "n \<ge> maxUint64 div 10 + 1")
    case True
    then have "10 * n + digitVal c > maxVal" using mv by (simp add: maxUint64_def)
    moreover have "10 * n + digitVal c \<le> decimal_from (10 * n + digitVal c) cs"
      by (rule decimal_from_ge)
    ultimately have "\<not> decimal_from n (c # cs) \<le> maxVal" by simp
    with True dig show ?thesis by simp
  next
    case False
    then have n10: "(n * 10) mod 2 ^ 64 = n * 10" by (simp add: maxUint64_def)
    show ?thesis
    proof (cases "n * 10 + digitVal c < 2 ^ 64")
      case True
      then have n1: "(n * 10 + digitVal c) mod 2 ^ 64 = n * 10 + digitVal c" by simp
      show ?thesis
      proof (cases "n * 10 + digitVal c > maxVal")
        case True
        moreover have "10 * n + digitVal c \<le> decimal_from (10 * n + digitVal c) cs"
          by (rule decimal_from_ge)
        ultimately have "\<not> decimal_from n (c # cs) \<le> maxVal" by simp
        with True dig False n10 n1 show ?thesis
          by (simp add: Let_def digitVal_def)
      next
        case gt: False
        have "ParseUint_loop maxVal n (c # cs) = ParseUint_loop maxVal (n * 10 + digitVal c) cs"
          using dig False n10 n1 gt by (simp add: Let_def digitVal_def)
        also have "\<dots> = (if decimal_from (n * 10 + digitVal c) cs \<le> maxVal
                           then Inr (decimal_from (n * 10 + digitVal c) cs) else Inl ErrRange)"
          using rest gt by (intro Cons.IH) simp_all
        finally show ?thesis by (simp add: mult.commute)
      qed
    next
      case wrap: False
      then have ge: "n * 10 + digitVal c \<ge> 2 ^ 64" by simp
      have lt: "n * 10 + digitVal c < 2 * 2 ^ 64" using False d9 by (simp add: maxUint64_def)
      have "(n * 10 + digitVal c) mod 2 ^ 64 = n * 10 + digitVal c - 2 ^ 64"
        using ge lt by (simp add: mod_if le_mod_geq)
      then have n1: "(n * 10 + digitVal c) mod 2 ^ 64 < n * 10" using d9 ge by simp
      have "10 * n + digitVal c \<le> decimal_from (10 * n + digitVal c) cs"
        by (rule decimal_from_ge)
      then have "\<not> decimal_from n (c # cs) \<le> maxVal" using ge mv by (simp add: mult.commute)
      with dig False n10 n1 show ?thesis
        by (simp add: Let_def digitVal_def)
    qed
  qed
qed

lemma ParseUint_loop_nondigit:
  "\<not> list_all isDigit cs \<Longrightarrow> \<exists>e. ParseUint_loop maxVal n cs = Inl e"
  by (induction cs arbitrary: n) (auto simp: Let_def)

lemma ParseUint_10_digits:
  assumes "isDigits s" and "bitSize \<le> 64"
  shows "ParseUint_10 s bitSize =
           (if decimal s < 2 ^ bitSize then Inr (decimal s) else Inl ErrRange)"
proof -
  have "(2::nat) ^ bitSize \<le> 2 ^ 64" using assms(2) by (rule power_increasing) simp
  then have mv: "(2::nat) ^ bitSize - 1 \<le> maxUint64" by (simp add: maxUint64_def)
  have pos: "(0::nat) < 2 ^ bitSize" by simp
  have le_iff: "(decimal s \<le> 2 ^ bitSize - 1) = (decimal s < 2 ^ bitSize)"
    using pos by arith
  have "ParseUint_10 s bitSize = ParseUint_loop (2 ^ bitSize - 1) 0 s"
    using assms(1) by (simp add: ParseUint_10_def isDigits_def)
  also have "\<dots> = (if decimal_from 0 s \<le> 2 ^ bitSize - 1 then Inr (decimal_from 0 s)
                     else Inl ErrRange)"
    using assms(1) mv by (intro ParseUint_loop_digits) (simp_all add: isDigits_def)
  also have "\<dots> = (if decimal s < 2 ^ bitSize then Inr (decimal s) else Inl ErrRange)"
    using le_iff by (simp only: decimal_def)
  finally show ?thesis .
qed

lemma ParseUint_10_not_digits:
  assumes "\<not> isDigits s"
  shows "\<exists>e. ParseUint_10 s bitSize = Inl e"
proof (cases "s = []")
  case True
  then show ?thesis by (simp add: ParseUint_10_def)
next
  case False
  with assms have "\<not> list_all isDigit s" by (simp add: isDigits_def)
  then show ?thesis using False by (simp add: ParseUint_10_def ParseUint_loop_nondigit)
qed

lemma fitsSigned_of_nat: "fitsSigned w (int d) \<longleftrightarrow> d < 2 ^ (w - 1)"
proof -
  have h: "(2::int) ^ (w - 1) = int (2 ^ (w - 1))" by simp
  show ?thesis unfolding fitsSigned_def h by linarith
qed

lemma fitsSigned_neg_of_nat: "fitsSigned w (- int d) \<longleftrightarrow> d \<le> 2 ^ (w - 1)"
proof -
  have h: "(2::int) ^ (w - 1) = int (2 ^ (w - 1))" by simp
  have p: "(0::nat) < 2 ^ (w - 1)" by simp
  show ?thesis unfolding fitsSigned_def h using p by linarith
qed

lemma ParseInt_literal:
  assumes "intLiteral s = Some x" and "bitSize \<le> 64" and "0 < bitSize"
  shows "ParseInt s bitSize =
           (if fitsSigned bitSize x then Inr x else Inl (NumError ''ParseInt'' s ErrRange))"
proof -
  from assms(1) obtain c cs where s: "s = c # cs"
    by (cases s) (simp_all add: intLiteral_def)
  have half: "(2::nat) ^ (bitSize - 1) < 2 ^ bitSize"
    using assms(3) by (intro power_strict_increasing) simp_all
  consider (neg) "c = CHR ''-''" | (pos) "c = CHR ''+''" | (none) "c \<noteq> CHR ''-''" "c \<noteq> CHR ''+''"
    by blast
  then show ?thesis
  proof cases
    case neg
    with assms(1) s have d: "isDigits cs" and x: "x = - int (decimal cs)"
      by (auto simp: intLiteral_def split: if_splits)
    have pu: "ParseUint_10 cs bitSize =
                (if decimal cs < 2 ^ bitSize then Inr (decimal cs) else Inl ErrRange)"
      using d assms(2) by (rule ParseUint_10_digits)
    have fit: "fitsSigned bitSize x \<longleftrightarrow> decimal cs \<le> 2 ^ (bitSize - 1)"
      unfolding x by (rule fitsSigned_neg_of_nat)
    show ?thesis
    proof (cases "decimal cs < 2 ^ bitSize")
      case True
      with pu s neg fit show ?thesis
        by (auto simp: ParseInt_def Let_def x)
    next
      case False
      then have "\<not> decimal cs \<le> 2 ^ (bitSize - 1)" using half by linarith
      with False pu s neg fit show ?thesis
        by (simp add: ParseInt_def Let_def)
    qed
  next
    case pos
    with assms(1) s have d: "isDigits cs" and x: "x = int (decimal cs)"
      by (auto simp: intLiteral_def split: if_splits)
    have pu: "ParseUint_10 cs bitSize =
                (if decimal cs < 2 ^ bitSize then Inr (decimal cs) else Inl ErrRange)"
      using d assms(2) by (rule ParseUint_10_digits)
    have fit: "fitsSigned bitSize x \<longleftrightarrow> decimal cs < 2 ^ (bitSize - 1)"
      unfolding x by (rule fitsSigned_of_nat)
    show ?thesis
    proof (cases "decimal cs < 2 ^ bitSize")
      case True
      with pu s pos fit show ?thesis
        by (auto simp: ParseInt_def Let_def x)
    next
      case False
      then have "\<not> decimal cs < 2 ^ (bitSize - 1)" using half by linarith
      with False pu s pos fit show ?thesis
        by (simp add: ParseInt_def Let_def)
    qed
  next
    case none
    with assms(1) s have d: "isDigits s" and x: "x = int (decimal s)"
      by (auto simp: intLiteral_def split: if_splits)
    have pu: "ParseUint_10 s bitSize =
                (if decimal s < 2 ^ bitSize then Inr (decimal s) else Inl ErrRange)"
      using d assms(2) by (rule ParseUint_10_digits)
    have fit: "fitsSigned bitSize x \<longleftrightarrow> decimal s < 2 ^ (bitSize - 1)"
      unfolding x by (rule fitsSigned_of_nat)
    show ?thesis
    proof (cases "decimal s < 2 ^ bitSize")
      case True
      with pu s none fit show ?thesis
        by (auto simp: ParseInt_def Let_def x)
    next
      case False
      then have "\<not> decimal s < 2 ^ (bitSize - 1)" using half by linarith
      with False pu s none fit show ?thesis
        by (simp add: ParseInt_def Let_def)
    qed
  qed
qed

lemma ParseInt_not_literal:
  assumes "intLiteral s = None"
  shows "\<exists>e. ParseInt s bitSize = Inl (NumError ''ParseInt'' s e)"
proof (cases s)
  case Nil
  then show ?thesis by (simp add: ParseInt_def)
next
  case (Cons c cs)
  let ?r = "if c = CHR ''+'' \<or> c = CHR ''-'' then cs else s"
  have "\<not> isDigits ?r" using assms Cons by (auto simp: intLiteral_def split: if_splits)
  then obtain e where "ParseUint_10 ?r bitSize = Inl e"
    using ParseUint_10_not_digits by blast
  then show ?thesis using Cons
    by (cases e) (auto simp: ParseInt_def Let_def)
qed

lemma ParseUint_literal:
  assumes "isDigits s" and "bitSize \<le> 64"
  shows "ParseUint s bitSize =
           (if decimal s < 2 ^ bitSize then Inr (decimal s)
            else Inl (NumError ''ParseUint'' s ErrRange))"
  using ParseUint_10_digits [OF assms] by (simp add: ParseUint_def)

lemma ParseUint_not_literal:
  assumes "\<not> isDigits s"
  shows "\<exists>e. ParseUint s bitSize = Inl (NumError ''ParseUint'' s e)"
  using ParseUint_10_not_digits [OF assms, of bitSize] by (auto simp: ParseUint_def)

section \<open>The environment pass: structure\<close>

lemma SetFloat_eq:
  "SetFloat lib w x = VFloat w (case w of Single \<Rightarrow> float32 lib x | Double \<Rightarrow> x)"
  by (cases w) simp_all

lemma setFieldFromEnv_Kind:
  "setFieldFromEnv lib v s = Inr v' \<Longrightarrow> Kind_of v' = Kind_of v"
  by (cases v)
     (auto simp: SetInt_def SetUint_def SetFloat_eq split: sum.splits fsize.splits)

lemma setFieldFromEnv_idem:
  "setFieldFromEnv lib v s = Inr v' \<Longrightarrow> setFieldFromEnv lib v' s = Inr v'"
  by (cases v)
     (auto simp: SetInt_def SetUint_def SetFloat_eq split: sum.splits fsize.splits)

lemma load_shape:
  "map fst (fst (loadStructFromEnv lib env fs p)) = map fst fs"
  "fst (fst (loadStructFromEnv_field lib env f p)) = fst f"
proof (induction lib env fs p and lib env f p
       rule: loadStructFromEnv_loadStructFromEnv_field.induct)
  case (1 lib env envPrefix)
  show ?case by simp
next
  case (2 lib env f rest envPrefix)
  then show ?case
    by (auto split: prod.splits option.splits)
next
  case (3 lib env structField field envPrefix)
  then show ?case
    by (auto simp: Let_def split: prod.splits option.splits val.splits sum.splits)
qed

lemma load_length:
  "loadStructFromEnv lib env fs p = (fs', tr, r) \<Longrightarrow> length fs' = length fs"
  using load_shape(1) [of lib env fs p] by (metis fst_conv length_map)

lemma load_append:
  "loadStructFromEnv lib env (xs @ ys) p =
     (case loadStructFromEnv lib env xs p of
        (xs', tr, Some err) \<Rightarrow> (xs' @ ys, tr, Some err)
      | (xs', tr, None) \<Rightarrow>
          (case loadStructFromEnv lib env ys p of
             (ys', tr', r) \<Rightarrow> (xs' @ ys', tr @ tr', r)))"
proof (induction xs)
  case Nil
  show ?case by (simp split: prod.splits)
next
  case (Cons x xs)
  show ?case
    by (simp add: Cons.IH split: prod.splits option.splits)
qed

lemma load_skip_unexported:
  assumes "\<not> CanSet sf" and "loadStructFromEnv lib env (pre @ post) p = (r, tr, e)"
  shows "loadStructFromEnv lib env (pre @ (sf, v) # post) p =
           (take (length pre) r @ (sf, v) # drop (length pre) r, tr, e)"
proof -
  obtain pre' tr1 e1 where pre: "loadStructFromEnv lib env pre p = (pre', tr1, e1)"
    by (cases "loadStructFromEnv lib env pre p") auto
  then have len: "length pre' = length pre" by (rule load_length)
  obtain post' tr2 e2 where post: "loadStructFromEnv lib env post p = (post', tr2, e2)"
    by (cases "loadStructFromEnv lib env post p") auto
  have cons: "loadStructFromEnv lib env ((sf, v) # post) p = ((sf, v) # post', tr2, e2)"
    using assms(1) post by simp
  show ?thesis
  proof (cases e1)
    case None
    with assms(2) pre post have "r = pre' @ post'" "tr = tr1 @ tr2" "e = e2"
      by (simp_all add: load_append)
    with None pre cons len show ?thesis by (simp add: load_append)
  next
    case (Some err)
    with assms(2) pre have "r = pre' @ post" "tr = tr1" "e = Some err"
      by (simp_all add: load_append)
    with Some pre len show ?thesis by (simp add: load_append)
  qed
qed

lemma load_error_form:
  "loadStructFromEnv lib env fs p = (fs', tr, Some e) \<Longrightarrow>
     \<exists>n var cause. e = SetFieldError n var cause \<and> tr \<noteq> [] \<and> last tr = EvLookupEnv var"
  "loadStructFromEnv_field lib env f p = (f', tr, Some e) \<Longrightarrow>
     \<exists>n var cause. e = SetFieldError n var cause \<and> tr \<noteq> [] \<and> last tr = EvLookupEnv var"
proof (induction lib env fs p and lib env f p arbitrary: fs' tr e and f' tr e
       rule: loadStructFromEnv_loadStructFromEnv_field.induct)
  case (1 lib env envPrefix)
  then show ?case by simp
next
  case (2 lib env f rest envPrefix)
  then show ?case
    by (fastforce split: prod.splits option.splits)
next
  case (3 lib env structField field envPrefix)
  then show ?case
    by (auto simp: Let_def split: prod.splits option.splits val.splits sum.splits if_splits)
qed

lemma isScalar_iff: "isScalar v \<longleftrightarrow> (\<forall>inner. v \<noteq> VStruct inner)"
proof (cases v)
  case (VInt w x)
  then show ?thesis by (cases w) (simp_all add: isScalar_def)
next
  case (VUint w x)
  then show ?thesis by (cases w) (simp_all add: isScalar_def)
next
  case (VFloat w x)
  then show ?thesis by (cases w) (simp_all add: isScalar_def)
next
  case (VOther k)
  then show ?thesis by (cases k) (simp_all add: isScalar_def)
qed (simp_all add: isScalar_def)

lemma load_field_struct:
  "CanSet sf \<Longrightarrow>
   loadStructFromEnv_field lib env (sf, VStruct inner) p =
     (case loadStructFromEnv lib env inner p of
        (inner', tr, r) \<Rightarrow> ((sf, VStruct inner'), tr, r))"
  by simp

lemma load_field_leaf:
  assumes "CanSet sf" and "isScalar v"
  shows "loadStructFromEnv_field lib env (sf, v) p =
     (case LookupEnv env (getEnvVarName lib sf p) of
        None \<Rightarrow> ((sf, v), [EvLookupEnv (getEnvVarName lib sf p)], None)
      | Some envValue \<Rightarrow>
          (case setFieldFromEnv lib v envValue of
             Inl err \<Rightarrow>
               ((sf, v), [EvLookupEnv (getEnvVarName lib sf p)],
                Some (SetFieldError (Name sf) (getEnvVarName lib sf p) err))
           | Inr v' \<Rightarrow> ((sf, v'), [EvLookupEnv (getEnvVarName lib sf p)], None)))"
  using assms by (cases v) (auto simp: isScalar_iff Let_def)

lemma load_field_skip:
  "\<not> CanSet sf \<Longrightarrow> loadStructFromEnv_field lib env (sf, v) p = ((sf, v), [], None)"
  by simp

declare loadStructFromEnv_field.simps [simp del]

lemma setFieldFromEnv_isScalar:
  "setFieldFromEnv lib v s = Inr v' \<Longrightarrow> isScalar v'"
proof -
  assume a: "setFieldFromEnv lib v s = Inr v'"
  then have "isScalar v" by (cases v) (auto simp: isScalar_iff)
  with setFieldFromEnv_Kind [OF a] show ?thesis by (simp add: isScalar_def)
qed

lemma load_Cons:
  "loadStructFromEnv lib env (f # rest) p = (fs', tr, None) \<longleftrightarrow>
     (\<exists>f' tr1 rest' tr2.
        loadStructFromEnv_field lib env f p = (f', tr1, None) \<and>
        loadStructFromEnv lib env rest p = (rest', tr2, None) \<and>
        fs' = f' # rest' \<and> tr = tr1 @ tr2)"
  by (auto split: prod.splits option.splits)

lemma load_idem:
  "loadStructFromEnv lib env fs p = (fs', tr, None) \<Longrightarrow>
     loadStructFromEnv lib env fs' p = (fs', tr, None)"
  "loadStructFromEnv_field lib env f p = (f', tr, None) \<Longrightarrow>
     loadStructFromEnv_field lib env f' p = (f', tr, None)"
proof (induction lib env fs p and lib env f p arbitrary: fs' tr and f' tr
       rule: loadStructFromEnv_loadStructFromEnv_field.induct)
  case (1 lib env envPrefix)
  then show ?case by simp
next
  case (2 lib env f rest envPrefix)
  from "2.prems" obtain f1 tr1 rest' tr2 where
    f: "loadStructFromEnv_field lib env f envPrefix = (f1, tr1, None)" and
    r: "loadStructFromEnv lib env rest envPrefix = (rest', tr2, None)" and
    eq: "fs' = f1 # rest'" "tr = tr1 @ tr2"
    unfolding load_Cons by blast
  have f': "loadStructFromEnv_field lib env f1 envPrefix = (f1, tr1, None)"
    using f by (rule "2.IH"(1))
  have r': "loadStructFromEnv lib env rest' envPrefix = (rest', tr2, None)"
    using f r by (intro "2.IH"(2)) simp_all
  show ?case unfolding eq load_Cons using f' r' by blast
next
  case (3 lib env structField field envPrefix)
  show ?case
  proof (cases "CanSet structField")
    case False
    with "3.prems" show ?thesis by (auto simp: load_field_skip)
  next
    case True
    show ?thesis
    proof (cases "isScalar field")
      case False
      then obtain inner where fld: "field = VStruct inner" by (auto simp: isScalar_iff)
      obtain inner' tr' r where i: "loadStructFromEnv lib env inner envPrefix = (inner', tr', r)"
        by (cases "loadStructFromEnv lib env inner envPrefix") auto
      with "3.prems" True fld have eq: "f' = (structField, VStruct inner')" "tr' = tr" "r = None"
        by (simp_all add: load_field_struct)
      have "loadStructFromEnv lib env inner' envPrefix = (inner', tr, None)"
        using True fld i eq by (intro "3.IH") simp_all
      then show ?thesis using True unfolding eq by (simp add: load_field_struct)
    next
      case scalar: True
      let ?var = "getEnvVarName lib structField envPrefix"
      show ?thesis
      proof (cases "LookupEnv env ?var")
        case None
        with "3.prems" True scalar have "f' = (structField, field)" "tr = [EvLookupEnv ?var]"
          by (simp_all add: load_field_leaf)
        with None True scalar show ?thesis by (simp add: load_field_leaf)
      next
        case (Some s)
        with "3.prems" True scalar obtain v' where
          set: "setFieldFromEnv lib field s = Inr v'" and
          eq: "f' = (structField, v')" "tr = [EvLookupEnv ?var]"
          by (auto simp: load_field_leaf split: sum.splits)
        have "isScalar v'" using set by (rule setFieldFromEnv_isScalar)
        moreover have "setFieldFromEnv lib v' s = Inr v'" using set by (rule setFieldFromEnv_idem)
        ultimately show ?thesis using Some True unfolding eq by (simp add: load_field_leaf)
      qed
    qed
  qed
qed

lemma load_nth_success:
  "loadStructFromEnv lib env fs p = (fs', tr, None) \<Longrightarrow> i < length fs \<Longrightarrow>
     \<exists>tr1. loadStructFromEnv_field lib env (fs ! i) p = (fs' ! i, tr1, None) \<and>
           set tr1 \<subseteq> set tr"
proof (induction fs arbitrary: i fs' tr)
  case Nil
  then show ?case by simp
next
  case (Cons f rest)
  from Cons.prems(1) obtain f1 tr1 rest' tr2 where
    f: "loadStructFromEnv_field lib env f p = (f1, tr1, None)" and
    r: "loadStructFromEnv lib env rest p = (rest', tr2, None)" and
    eq: "fs' = f1 # rest'" "tr = tr1 @ tr2"
    unfolding load_Cons by blast
  show ?case
  proof (cases i)
    case 0
    with f eq show ?thesis by simp
  next
    case (Suc k)
    with Cons.prems(2) have "k < length rest" by simp
    from Cons.IH [OF r this] obtain tr3 where
      "loadStructFromEnv_field lib env (rest ! k) p = (rest' ! k, tr3, None)"
      "set tr3 \<subseteq> set tr2" by blast
    with Suc eq show ?thesis by auto
  qed
qed

lemma load_nth_any:
  "loadStructFromEnv lib env fs p = (fs', tr, r) \<Longrightarrow> i < length fs \<Longrightarrow>
     fs' ! i = fs ! i \<or>
     (\<exists>tr1 r1. loadStructFromEnv_field lib env (fs ! i) p = (fs' ! i, tr1, r1))"
proof (induction fs arbitrary: i fs' tr r)
  case Nil
  then show ?case by simp
next
  case (Cons f rest)
  obtain f1 tr1 r1 where f: "loadStructFromEnv_field lib env f p = (f1, tr1, r1)"
    by (cases "loadStructFromEnv_field lib env f p") auto
  show ?case
  proof (cases r1)
    case (Some err)
    with Cons.prems(1) f have "fs' = f1 # rest" by simp
    with f show ?thesis by (cases i) auto
  next
    case None
    obtain rest' tr2 r2 where r: "loadStructFromEnv lib env rest p = (rest', tr2, r2)"
      by (cases "loadStructFromEnv lib env rest p") auto
    with None Cons.prems(1) f have eq: "fs' = f1 # rest'" by simp
    show ?thesis
    proof (cases i)
      case 0
      with f eq show ?thesis by auto
    next
      case (Suc k)
      with Cons.prems(2) have "k < length rest" by simp
      from Cons.IH [OF r this] Suc eq show ?thesis by simp
    qed
  qed
qed

section \<open>Literals accepted by the parsers\<close>

lemma bits_range:
  "IntSize lib = 32 \<or> IntSize lib = 64 \<Longrightarrow>
     0 < bits (IntSize lib) w \<and> bits (IntSize lib) w \<le> 64"
  by (cases w) auto

lemma wrap_signed_fits:
  assumes "0 < w" and "fitsSigned w x"
  shows "wrap_signed w x = x"
proof -
  have p: "(2::int) ^ w = 2 * 2 ^ (w - 1)" using assms(1) by (cases w) simp_all
  have lo: "0 \<le> x + 2 ^ (w - 1)" using assms(2) unfolding fitsSigned_def by linarith
  have hi: "x + 2 ^ (w - 1) < 2 ^ w" using assms(2) unfolding fitsSigned_def p by linarith
  have "(x + 2 ^ (w - 1)) mod 2 ^ w = x + 2 ^ (w - 1)"
    using lo hi by (rule mod_pos_pos_trivial)
  then show ?thesis unfolding wrap_signed_def by simp
qed

lemma fitsSigned_mono:
  assumes "fitsSigned a x" and "a \<le> b"
  shows "fitsSigned b x"
proof -
  have "(2::int) ^ (a - 1) \<le> 2 ^ (b - 1)" using assms(2) by (intro power_increasing) auto
  with assms(1) show ?thesis unfolding fitsSigned_def by linarith
qed

lemma set_literal:
  assumes sz: "IntSize lib = 32 \<or> IntSize lib = 64"
    and lit: "literal_value lib v s = Some x"
  shows "setFieldFromEnv lib v s = Inr x"
proof (cases v)
  case (VBool b)
  with lit show ?thesis by (auto simp: ParseBool_def split: if_splits)
next
  case (VInt w y)
  let ?b = "bits (IntSize lib) w"
  from lit VInt obtain z where z: "intLiteral s = Some z" and fit: "fitsSigned ?b z"
    and x: "x = VInt w z"
    by (auto split: option.splits if_splits)
  have r: "0 < ?b \<and> ?b \<le> 64" using sz by (rule bits_range)
  have "fitsSigned 64 z" using fit r by (auto intro: fitsSigned_mono)
  then have "ParseInt s 64 = Inr z" using ParseInt_literal [OF z, of 64] by simp
  moreover have "wrap_signed ?b z = z" using r fit by (auto intro: wrap_signed_fits)
  ultimately show ?thesis using VInt x by (simp add: SetInt_def)
next
  case (VUint w y)
  let ?b = "bits (IntSize lib) w"
  from lit VUint have d: "isDigits s" and fit: "decimal s < 2 ^ ?b"
    and x: "x = VUint w (decimal s)"
    by (auto split: if_splits)
  have r: "0 < ?b \<and> ?b \<le> 64" using sz by (rule bits_range)
  have "(2::nat) ^ ?b \<le> 2 ^ 64" using r by (intro power_increasing) auto
  with fit have "decimal s < 2 ^ 64" by linarith
  then have "ParseUint s 64 = Inr (decimal s)" using ParseUint_literal [OF d, of 64] by simp
  moreover have "wrap_unsigned ?b (decimal s) = decimal s"
    using fit by (simp add: wrap_unsigned_def)
  ultimately show ?thesis using VUint x by (simp add: SetUint_def)
next
  case (VFloat w y)
  with lit show ?thesis by (auto split: sum.splits)
next
  case (VString y)
  with lit show ?thesis by simp
next
  case (VStruct inner)
  with lit show ?thesis by simp
next
  case (VOther k)
  with lit show ?thesis by simp
qed

lemma literal_value_isScalar: "literal_value lib v s = Some x \<Longrightarrow> isScalar v"
  by (cases v) (simp_all add: isScalar_iff)

section \<open>Fields by position\<close>

lemma getEnvVarName_no_tag:
  "Tag_Get (Tag sf) ''env'' = [] \<Longrightarrow> getEnvVarName lib sf p = []"
  by (simp add: getEnvVarName_def)

lemma load_field_no_tag:
  assumes "Tag_Get (Tag sf) ''env'' = []" and "isScalar v"
  shows "fst (loadStructFromEnv_field lib env (sf, v) p) = (sf, v)"
proof (cases "CanSet sf")
  case True
  then show ?thesis
    using assms by (simp add: load_field_leaf getEnvVarName_no_tag LookupEnv_def)
next
  case False
  then show ?thesis by (simp add: load_field_skip)
qed

lemma fieldAt_same:
  assumes "length fs' = length fs" and "i < length fs" and "fs' ! i = fs ! i"
  shows "fieldAt fs' (i # js) = fieldAt fs (i # js)"
  using assms by (cases js) simp_all

lemma fieldAt_leaf:
  "fieldAt fs [i] = Some f \<longleftrightarrow> i < length fs \<and> fs ! i = f"
  by auto

lemma fieldAt_deep:
  "fieldAt fs (i # j # js) = Some f \<longleftrightarrow>
     (\<exists>sf0 inner. i < length fs \<and> fs ! i = (sf0, VStruct inner) \<and>
                   fieldAt inner (j # js) = Some f)"
proof (cases "i < length fs")
  case False
  then show ?thesis by simp
next
  case True
  obtain sf0 v0 where at: "fs ! i = (sf0, v0)" by (cases "fs ! i")
  show ?thesis using True at by (cases v0) simp_all
qed

lemma load_no_tag_unchanged:
  assumes "isScalar v" and "Tag_Get (Tag sf) ''env'' = []"
  shows "fieldAt fs path = Some (sf, v) \<Longrightarrow>
         loadStructFromEnv lib env fs p = (fs', tr, r) \<Longrightarrow>
         fieldAt fs' path = Some (sf, v)"
proof (induction fs path arbitrary: fs' tr r rule: fieldAt.induct)
  case (1 fs)
  then show ?case by simp
next
  case (2 fs i)
  from "2.prems"(1) have i: "i < length fs" and at: "fs ! i = (sf, v)"
    unfolding fieldAt_leaf by simp_all
  have len: "length fs' = length fs" using "2.prems"(2) by (rule load_length)
  have "fs' ! i = (sf, v)"
  proof -
    from load_nth_any [OF "2.prems"(2) i]
    consider "fs' ! i = fs ! i"
      | tr1 r1 where "loadStructFromEnv_field lib env (fs ! i) p = (fs' ! i, tr1, r1)"
      by blast
    then show ?thesis
    proof cases
      case 1
      with at show ?thesis by simp
    next
      case 2
      then have "fs' ! i = fst (loadStructFromEnv_field lib env (sf, v) p)"
        using at by simp
      then show ?thesis using load_field_no_tag [OF assms(2) assms(1)] by simp
    qed
  qed
  with i len show ?case unfolding fieldAt_leaf by simp
next
  case (3 fs i j js)
  from "3.prems"(1) obtain sf0 inner where
    i: "i < length fs" and at: "fs ! i = (sf0, VStruct inner)" and
    deep: "fieldAt inner (j # js) = Some (sf, v)"
    unfolding fieldAt_deep by blast
  have len: "length fs' = length fs" using "3.prems"(2) by (rule load_length)
  from load_nth_any [OF "3.prems"(2) i]
  consider (same) "fs' ! i = fs ! i"
    | (run) tr1 r1 where "loadStructFromEnv_field lib env (fs ! i) p = (fs' ! i, tr1, r1)"
    by blast
  then show ?case
  proof cases
    case same
    have "fieldAt fs' (i # j # js) = fieldAt fs (i # j # js)"
      using len i same by (rule fieldAt_same)
    with "3.prems"(1) show ?thesis by (simp only:)
  next
    case run
    show ?thesis
    proof (cases "CanSet sf0")
      case False
      with run at have "fs' ! i = fs ! i" by (simp add: load_field_skip)
      with len i have "fieldAt fs' (i # j # js) = fieldAt fs (i # j # js)"
        by (rule fieldAt_same)
      with "3.prems"(1) show ?thesis by (simp only:)
    next
      case True
      obtain inner' tr2 r2 where
        inner: "loadStructFromEnv lib env inner p = (inner', tr2, r2)"
        by (cases "loadStructFromEnv lib env inner p") auto
      with run at True have new: "fs' ! i = (sf0, VStruct inner')"
        by (simp add: load_field_struct)
      have snd_at: "snd (fs ! i) = VStruct inner" using at by simp
      have "fieldAt inner' (j # js) = Some (sf, v)"
        using i snd_at deep inner by (rule "3.IH")
      with new i len show ?thesis unfolding fieldAt_deep by auto
    qed
  qed
qed

lemma settableAt_leaf: "settableAt fs [i] \<longleftrightarrow> i < length fs \<and> CanSet (fst (fs ! i))"
  by simp

lemma settableAt_deep:
  "settableAt fs (i # j # js) \<longleftrightarrow>
     (\<exists>sf0 inner. i < length fs \<and> fs ! i = (sf0, VStruct inner) \<and> CanSet sf0 \<and>
                   settableAt inner (j # js))"
proof (cases "i < length fs")
  case False
  then show ?thesis by simp
next
  case True
  obtain sf0 v0 where at: "fs ! i = (sf0, v0)" by (cases "fs ! i")
  show ?thesis using True at by (cases v0) auto
qed

lemma load_settable_leaf:
  "fieldAt fs path = Some (sf, v) \<Longrightarrow> settableAt fs path \<Longrightarrow>
   loadStructFromEnv lib env fs p = (fs', tr, None) \<Longrightarrow>
     CanSet sf \<and>
     (\<exists>f' tr1. fieldAt fs' path = Some f' \<and>
        loadStructFromEnv_field lib env (sf, v) p = (f', tr1, None) \<and> set tr1 \<subseteq> set tr)"
proof (induction fs path arbitrary: fs' tr rule: fieldAt.induct)
  case (1 fs)
  then show ?case by simp
next
  case (2 fs i)
  from "2.prems"(1) have i: "i < length fs" and at: "fs ! i = (sf, v)"
    unfolding fieldAt_leaf by simp_all
  have can: "CanSet sf" using "2.prems"(2) at by simp
  have len: "length fs' = length fs" using "2.prems"(3) by (rule load_length)
  from load_nth_success [OF "2.prems"(3) i] obtain tr1 where
    "loadStructFromEnv_field lib env (fs ! i) p = (fs' ! i, tr1, None)" "set tr1 \<subseteq> set tr"
    by blast
  moreover have "fieldAt fs' [i] = Some (fs' ! i)" using i len by simp
  ultimately show ?case using can at by auto
next
  case (3 fs i j js)
  from "3.prems"(1) obtain sf0 inner where
    i: "i < length fs" and at: "fs ! i = (sf0, VStruct inner)" and
    deep: "fieldAt inner (j # js) = Some (sf, v)"
    unfolding fieldAt_deep by blast
  from "3.prems"(2) at have can0: "CanSet sf0" and sdeep: "settableAt inner (j # js)"
    unfolding settableAt_deep by auto
  have len: "length fs' = length fs" using "3.prems"(3) by (rule load_length)
  from load_nth_success [OF "3.prems"(3) i] obtain tr0 where
    run: "loadStructFromEnv_field lib env (fs ! i) p = (fs' ! i, tr0, None)"
    and sub: "set tr0 \<subseteq> set tr"
    by blast
  obtain inner' tr2 r2 where
    inner: "loadStructFromEnv lib env inner p = (inner', tr2, r2)"
    by (cases "loadStructFromEnv lib env inner p") auto
  with run at can0 have new: "fs' ! i = (sf0, VStruct inner')" and tr2: "tr2 = tr0"
    and r2: "r2 = None"
    by (simp_all add: load_field_struct)
  have snd_at: "snd (fs ! i) = VStruct inner" using at by simp
  have inner0: "loadStructFromEnv lib env inner p = (inner', tr0, None)"
    using inner tr2 r2 by simp
  from "3.IH" [OF i snd_at deep sdeep inner0]
  obtain f' tr1 where can: "CanSet sf" and
    f': "fieldAt inner' (j # js) = Some f'" and
    fld: "loadStructFromEnv_field lib env (sf, v) p = (f', tr1, None)" and
    sub1: "set tr1 \<subseteq> set tr0"
    by blast
  have "fieldAt fs' (i # j # js) = Some f'"
    unfolding fieldAt_deep using new i len f' by auto
  with can fld sub1 sub show ?case by blast
qed

section \<open>Upper case and the trailing separator\<close>

lemma byte_inj: "(c = d) = (byte c = byte d)"
  by (simp add: byte_def)

lemma byte_upperByte:
  "byte (upperByte c) = (if 97 \<le> byte c \<and> byte c \<le> 122 then byte c - 32 else byte c)"
  by (auto simp: upperByte_def byte_def)

lemma upperByte_idem: "upperByte (upperByte c) = upperByte c"
  by (auto simp: byte_inj [of "upperByte (upperByte c)"] byte_upperByte)

lemma byte_underscore: "byte (CHR ''_'') = 95"
  by (simp add: byte_def)

lemma upperByte_underscore: "(upperByte c = CHR ''_'') = (c = CHR ''_'')"
  by (auto simp: byte_inj [of _ "CHR ''_''"] byte_upperByte byte_underscore)

lemma upperByte_ascii: "byte c < 128 \<Longrightarrow> byte (upperByte c) < 128"
  by (auto simp: byte_upperByte)

lemma isASCII_upper: "isASCII s \<Longrightarrow> isASCII (map upperByte s)"
  by (induction s) (auto simp: isASCII_def upperByte_ascii)

lemma isASCII_take: "isASCII s \<Longrightarrow> isASCII (take n s)"
  unfolding isASCII_def list_all_iff by (auto dest: in_set_takeD)

lemma ToUpper_ascii: "isASCII s \<Longrightarrow> ToUpper U s = map upperByte s"
  by (simp add: ToUpper_def)

lemma ToUpper_idem: "isASCII s \<Longrightarrow> ToUpper U (ToUpper U s) = ToUpper U s"
  by (simp add: ToUpper_ascii isASCII_upper upperByte_idem)

lemma HasSuffix_single: "HasSuffix s [c] \<longleftrightarrow> s \<noteq> [] \<and> last s = c"
  by (cases s rule: rev_cases) (auto simp: HasSuffix_def)

lemma TrimSuffix_single:
  "TrimSuffix s [c] = (if s \<noteq> [] \<and> last s = c then butlast s else s)"
  by (simp add: TrimSuffix_def HasSuffix_single butlast_conv_take)

lemma HasSuffix_double:
  "HasSuffix s [c, c] \<longleftrightarrow> s \<noteq> [] \<and> last s = c \<and> butlast s \<noteq> [] \<and> last (butlast s) = c"
proof (cases s rule: rev_cases)
  case Nil
  then show ?thesis by (simp add: HasSuffix_def)
next
  case (snoc t a)
  show ?thesis
  proof (cases t rule: rev_cases)
    case Nil
    with snoc show ?thesis by (simp add: HasSuffix_def)
  next
    case (snoc r b)
    with \<open>s = t @ [a]\<close> show ?thesis by (auto simp: HasSuffix_def butlast_append)
  qed
qed

lemma TrimSuffix_upper_fixed:
  assumes "isASCII x"
  shows "ToUpper U (TrimSuffix (ToUpper U x) ''_'') = TrimSuffix (ToUpper U x) ''_''"
proof -
  have u: "ToUpper U x = map upperByte x" using assms by (rule ToUpper_ascii)
  have "TrimSuffix (map upperByte x) ''_'' = map upperByte x \<or>
        TrimSuffix (map upperByte x) ''_'' = map upperByte (butlast x)"
    by (simp add: TrimSuffix_single map_butlast)
  moreover have "isASCII (butlast x)" using assms by (simp add: butlast_conv_take isASCII_take)
  ultimately show ?thesis
    using assms unfolding u
    by (auto simp: ToUpper_ascii isASCII_upper upperByte_idem)
qed

lemma normalize_idem:
  assumes "isASCII x" and "\<not> HasSuffix (ToUpper U x) ''__''"
  shows "TrimSuffix (ToUpper U (TrimSuffix (ToUpper U x) ''_'')) ''_'' =
         TrimSuffix (ToUpper U x) ''_''"
proof -
  let ?n = "TrimSuffix (ToUpper U x) ''_''"
  have fixed: "ToUpper U ?n = ?n" using assms(1) by (rule TrimSuffix_upper_fixed)
  have nl: "\<not> (?n \<noteq> [] \<and> last ?n = CHR ''_'')"
  proof (cases "ToUpper U x \<noteq> [] \<and> last (ToUpper U x) = CHR ''_''")
    case True
    have e: "?n = butlast (ToUpper U x)"
      by (simp only: TrimSuffix_single if_P [OF True])
    show ?thesis unfolding e using True assms(2) by (auto simp: HasSuffix_double)
  next
    case False
    have e: "?n = ToUpper U x"
      by (simp only: TrimSuffix_single if_not_P [OF False])
    show ?thesis unfolding e by (rule False)
  qed
  have "TrimSuffix ?n ''_'' = ?n"
    by (simp only: TrimSuffix_single [of ?n] if_not_P [OF nl])
  with fixed show ?thesis by simp
qed

lemma differOnlyInCase_upper:
  "differOnlyInCase x y \<Longrightarrow> map upperByte x = map upperByte y"
  unfolding differOnlyInCase_def
proof (induction x y rule: list_all2_induct)
  case Nil
  show ?case by simp
next
  case (Cons a x b y)
  have "upperByte a = upperByte b"
    using Cons.hyps(1)
    by (auto simp: byte_inj [of "upperByte a"] byte_upperByte isLetter_def)
  with Cons.IH show ?case by simp
qed

lemma differOnlyInCase_ascii:
  "differOnlyInCase x y \<Longrightarrow> isASCII x \<Longrightarrow> isASCII y"
  unfolding differOnlyInCase_def
proof (induction x y rule: list_all2_induct)
  case Nil
  show ?case by (simp add: isASCII_def)
next
  case (Cons a x b y)
  then show ?case by (auto simp: isASCII_def isLetter_def)
qed

lemma normalize_case_insensitive:
  assumes "isASCII x" and "differOnlyInCase x y"
  shows "TrimSuffix (ToUpper U y) ''_'' = TrimSuffix (ToUpper U x) ''_''"
  using differOnlyInCase_upper [OF assms(2)] differOnlyInCase_ascii [OF assms(2) assms(1)]
        assms(1)
  by (simp add: ToUpper_ascii)

lemma HasSuffix_upper_double:
  assumes "isASCII x"
  shows "HasSuffix (ToUpper U x) ''__'' \<longleftrightarrow> HasSuffix x ''__''"
proof -
  have u: "ToUpper U x = map upperByte x" using assms by (rule ToUpper_ascii)
  have l: "\<And>s. s \<noteq> [] \<Longrightarrow> (last (map upperByte s) = CHR ''_'') = (last s = CHR ''_'')"
    by (simp add: last_map upperByte_underscore)
  show ?thesis
    unfolding u HasSuffix_double
    by (cases "x = []"; cases "butlast x = []") (auto simp: l map_butlast [symmetric])
qed

section \<open>Evaluation on concrete inputs\<close>

lemmas eval_defs =
  ParseInt_def ParseUint_def ParseUint_10_def maxUint64_def isDigit_def byte_def
  ToUpper_def isASCII_def upperByte_def TrimSuffix_def HasSuffix_def ParseBool_def Let_def
  example_lib_def example_field_def SetInt_def SetUint_def wrap_signed_def wrap_unsigned_def
  getEnvVarName_def Tag_Get_def LookupEnv_def CanSet_def IsExported_def char_of_def
  bit_Suc_0_iff loadFromYaml_def loadFromEnv_def Load_def defaultParameters_def
  WithEnvPrefix_def WithPaths_def WithName_def loadStructFromEnv_field.simps isScalar_def

lemmas literal_defs =
  intLiteral_def isDigits_def decimal_def digitVal_def fitsSigned_def differOnlyInCase_def
  isLetter_def

lemma stored_prefix_upper:
  assumes "p = params_envPrefix defaultParameters \<or>
           (isASCII x \<and> p = params_envPrefix (WithEnvPrefix lib x params))"
  shows "ToUpper (unicode_ToUpper lib) p = p"
  using assms
proof
  assume "p = params_envPrefix defaultParameters"
  then show ?thesis by (simp add: eval_defs)
next
  assume "isASCII x \<and> p = params_envPrefix (WithEnvPrefix lib x params)"
  then show ?thesis by (simp add: WithEnvPrefix_def TrimSuffix_upper_fixed)
qed

lemma load_leaf_trace:
  assumes "CanSet sf" and "isScalar v"
    and "loadStructFromEnv_field lib env (sf, v) p = (f', tr1, r)"
  shows "tr1 = [EvLookupEnv (getEnvVarName lib sf p)]"
  using assms(3) unfolding load_field_leaf [OF assms(1,2)]
  by (auto split: option.splits sum.splits)

section \<open>The claims\<close>

subsection \<open>C1: a field without a key is never touched\<close>

text \<open>
  C1: a scalar field whose \<^verbatim>\<open>env\<close> tag is absent or empty has after the pass the
  value it had before, for every record, every position of the field in it (at the top
  or inside nested records), every prefix and every environment, whether the pass
  returns an error or not. The name computed for such a field is the empty string, and
  \<^verbatim>\<open>os.LookupEnv("")\<close> finds nothing.
\<close>

theorem C1_no_key_unchanged:
  assumes "fieldAt fs path = Some (sf, v)" and "isScalar v"
    and "Tag_Get (Tag sf) ''env'' = []"
    and "loadStructFromEnv lib env fs p = (fs', tr, r)"
  shows "fieldAt fs' path = Some (sf, v)"
  using assms(2,3,1,4) by (rule load_no_tag_unchanged)

theorem C1_no_key_unchanged_witness:
  "loadStructFromEnv example_lib [''TEST_PORT'' \<mapsto> ''8080'', ''TEST_TIMEOUT'' \<mapsto> ''99'']
       [(example_field ''Port'' ''port'', VInt Native 3000),
        (\<lparr>Name = ''Db'', PkgPath = [], Tag = []\<rparr>,
         VStruct [(\<lparr>Name = ''Timeout'', PkgPath = [], Tag = [(''yaml'', ''timeout'')]\<rparr>,
                   VInt Native 30)])] ''TEST'' =
     ([(example_field ''Port'' ''port'', VInt Native 8080),
       (\<lparr>Name = ''Db'', PkgPath = [], Tag = []\<rparr>,
        VStruct [(\<lparr>Name = ''Timeout'', PkgPath = [], Tag = [(''yaml'', ''timeout'')]\<rparr>,
                  VInt Native 30)])],
      [EvLookupEnv ''TEST_PORT'', EvLookupEnv []], None) \<and>
   fieldAt
     [(example_field ''Port'' ''port'', VInt Native 8080),
      (\<lparr>Name = ''Db'', PkgPath = [], Tag = []\<rparr>,
       VStruct [(\<lparr>Name = ''Timeout'', PkgPath = [], Tag = [(''yaml'', ''timeout'')]\<rparr>,
                 VInt Native 30 :: unit val)])] [1, 0] =
     Some (\<lparr>Name = ''Timeout'', PkgPath = [], Tag = [(''yaml'', ''timeout'')]\<rparr>, VInt Native 30)"
proof -
  let ?t = "\<lparr>Name = ''Timeout'', PkgPath = [], Tag = [(''yaml'', ''timeout'')]\<rparr>"
  let ?fs = "[(example_field ''Port'' ''port'', VInt Native 3000),
        (\<lparr>Name = ''Db'', PkgPath = [], Tag = []\<rparr>, VStruct [(?t, VInt Native (30::int))])]"
  have at: "fieldAt ?fs [1, 0] = Some (?t, VInt Native 30 :: unit val)" by simp
  have sc: "isScalar (VInt Native 30 :: unit val)" by (simp add: isScalar_def)
  have tag: "Tag_Get (Tag ?t) ''env'' = []" by (simp add: Tag_Get_def)
  have run: "loadStructFromEnv example_lib
               [''TEST_PORT'' \<mapsto> ''8080'', ''TEST_TIMEOUT'' \<mapsto> ''99''] ?fs ''TEST'' =
             ([(example_field ''Port'' ''port'', VInt Native 8080),
               (\<lparr>Name = ''Db'', PkgPath = [], Tag = []\<rparr>, VStruct [(?t, VInt Native 30)])],
              [EvLookupEnv ''TEST_PORT'', EvLookupEnv []], None)"
    by (simp add: eval_defs)
  show ?thesis by (rule conjI [OF run C1_no_key_unchanged [OF at sc tag run]])
qed

subsection \<open>C2: a valid value in the environment replaces the value of the field\<close>

text \<open>
  C2 as it is written, for every scalar field with a key, fails on two accounts. In the
  record below the field \<open>a\<close> is not exported: the pass skips it, so it keeps
  \<open>old\<close> although \<open>A\<close> is set. The field \<open>B\<close> is an integer and \<open>B\<close> is set
  to \<open>bad\<close>: the pass stops there with an error, so \<open>C\<close>, a string field whose
  variable is set to \<open>y\<close>, keeps \<open>old\<close> too.
\<close>

theorem C2_counterexample:
  "LookupEnv [''A'' \<mapsto> ''x'', ''B'' \<mapsto> ''bad'', ''C'' \<mapsto> ''y'']
       (getEnvVarName example_lib
          \<lparr>Name = ''a'', PkgPath = ''main'', Tag = [(''env'', ''A'')]\<rparr> []) = Some ''x'' \<and>
   literal_value example_lib (VString ''old'') ''x'' = Some (VString ''x'') \<and>
   LookupEnv [''A'' \<mapsto> ''x'', ''B'' \<mapsto> ''bad'', ''C'' \<mapsto> ''y'']
       (getEnvVarName example_lib (example_field ''C'' ''C'') []) = Some ''y'' \<and>
   literal_value example_lib (VString ''old'') ''y'' = Some (VString ''y'') \<and>
   loadStructFromEnv example_lib [''A'' \<mapsto> ''x'', ''B'' \<mapsto> ''bad'', ''C'' \<mapsto> ''y'']
       [(\<lparr>Name = ''a'', PkgPath = ''main'', Tag = [(''env'', ''A'')]\<rparr>, VString ''old''),
        (example_field ''B'' ''B'', VInt Native 7),
        (example_field ''C'' ''C'', VString ''old'')] [] =
     ([(\<lparr>Name = ''a'', PkgPath = ''main'', Tag = [(''env'', ''A'')]\<rparr>, VString ''old''),
       (example_field ''B'' ''B'', VInt Native 7),
       (example_field ''C'' ''C'', VString ''old'')],
      [EvLookupEnv ''B''],
      Some (SetFieldError ''B'' ''B'' (NumError ''ParseInt'' ''bad'' ErrSyntax)))"
  by (simp add: eval_defs)

text \<open>
  C2, amended: for a scalar field that the pass can set (it is exported, and so is
  every record around it) with the key \<open>K\<close>, when the variable named \<open>P_K\<close> with
  \<open>K\<close> in upper case (\<open>K\<close> in upper case when the prefix \<open>P\<close> is empty) is present
  with a valid literal for the kind of the field, and the pass returns no error, the
  field holds the value of that literal after the pass, whatever it held before. The
  width of \<^verbatim>\<open>int\<close> is 32 or 64 bits.
\<close>

theorem C2_env_dominates:
  assumes sz: "IntSize lib = 32 \<or> IntSize lib = 64"
    and at: "fieldAt fs path = Some (sf, v)"
    and settable: "settableAt fs path"
    and tag: "Tag_Get (Tag sf) ''env'' = K" "K \<noteq> []"
    and present: "LookupEnv env
         (if p = [] then ToUpper (unicode_ToUpper lib) K
          else p @ ''_'' @ ToUpper (unicode_ToUpper lib) K) = Some s"
    and lit: "literal_value lib v s = Some x"
    and run: "loadStructFromEnv lib env fs p = (fs', tr, None)"
  shows "fieldAt fs' path = Some (sf, x)"
proof -
  from load_settable_leaf [OF at settable run] obtain f' tr1 where
    can: "CanSet sf" and f': "fieldAt fs' path = Some f'" and
    fld: "loadStructFromEnv_field lib env (sf, v) p = (f', tr1, None)"
    by blast
  have sc: "isScalar v" using lit by (rule literal_value_isScalar)
  have name: "getEnvVarName lib sf p =
      (if p = [] then ToUpper (unicode_ToUpper lib) K
       else p @ ''_'' @ ToUpper (unicode_ToUpper lib) K)"
    using tag by (simp add: getEnvVarName_def)
  have look: "LookupEnv env (getEnvVarName lib sf p) = Some s"
    unfolding name by (rule present)
  have "setFieldFromEnv lib v s = Inr x" using sz lit by (rule set_literal)
  with look have "loadStructFromEnv_field lib env (sf, v) p =
      ((sf, x), [EvLookupEnv (getEnvVarName lib sf p)], None)"
    unfolding load_field_leaf [OF can sc] by simp
  with fld have "f' = (sf, x)" by simp
  with f' show ?thesis by simp
qed

theorem C2_env_dominates_witness:
  "loadStructFromEnv example_lib [''APP_PORT'' \<mapsto> ''8080'']
       [(\<lparr>Name = ''Server'', PkgPath = [], Tag = []\<rparr>,
         VStruct [(example_field ''Port'' ''port'', VInt Bits16 3000)])] ''APP'' =
     ([(\<lparr>Name = ''Server'', PkgPath = [], Tag = []\<rparr>,
        VStruct [(example_field ''Port'' ''port'', VInt Bits16 8080)])],
      [EvLookupEnv ''APP_PORT''], None) \<and>
   fieldAt
     [(\<lparr>Name = ''Server'', PkgPath = [], Tag = []\<rparr>,
       VStruct [(example_field ''Port'' ''port'', VInt Bits16 8080 :: unit val)])] [0, 0] =
     Some (example_field ''Port'' ''port'', VInt Bits16 8080)"
proof -
  let ?env = "[''APP_PORT'' \<mapsto> ''8080'']"
  let ?fs = "[(\<lparr>Name = ''Server'', PkgPath = [], Tag = []\<rparr>,
         VStruct [(example_field ''Port'' ''port'', VInt Bits16 3000 :: unit val)])]"
  have sz: "IntSize example_lib = 32 \<or> IntSize example_lib = 64"
    by (simp add: example_lib_def)
  have at: "fieldAt ?fs [0, 0] = Some (example_field ''Port'' ''port'', VInt Bits16 3000)"
    by simp
  have settable: "settableAt ?fs [0, 0]" by (simp add: eval_defs)
  have tag: "Tag_Get (Tag (example_field ''Port'' ''port'')) ''env'' = ''port''"
    by (simp add: eval_defs)
  have ne: "''port'' \<noteq> []" by simp
  have present: "LookupEnv ?env
         (if ''APP'' = [] then ToUpper (unicode_ToUpper example_lib) ''port''
          else ''APP'' @ ''_'' @ ToUpper (unicode_ToUpper example_lib) ''port'') = Some ''8080''"
    by (simp add: eval_defs)
  have lit: "literal_value example_lib (VInt Bits16 3000) ''8080'' = Some (VInt Bits16 8080)"
    by (simp add: eval_defs literal_defs)
  have run: "loadStructFromEnv example_lib ?env ?fs ''APP'' =
     ([(\<lparr>Name = ''Server'', PkgPath = [], Tag = []\<rparr>,
        VStruct [(example_field ''Port'' ''port'', VInt Bits16 8080)])],
      [EvLookupEnv ''APP_PORT''], None)"
    by (simp add: eval_defs)
  show ?thesis
    by (rule conjI [OF run C2_env_dominates [OF sz at settable tag ne present lit run]])
qed

subsection \<open>C3: the name of the variable\<close>

text \<open>
  C3: for a field with the non-empty key \<open>K\<close> and a prefix \<open>p\<close> as the parameters
  hold it (the default, or what \<^verbatim>\<open>WithEnvPrefix\<close> stores for an ASCII argument), the
  name is \<open>p\<close> in upper case, an underscore and \<open>K\<close> in upper case, and \<open>K\<close> in
  upper case alone when \<open>p\<close> is empty. The name does not depend on the depth: in a
  pass that succeeds, for a settable scalar field with that \<open>StructField\<close> at any
  position of the record, at the top or inside nested records, the variable looked up
  is the one computed from the prefix given to the pass and the key of the field.
\<close>

theorem C3_env_var_name:
  assumes tag: "Tag_Get (Tag sf) ''env'' = K" "K \<noteq> []"
    and pre: "p = params_envPrefix defaultParameters \<or>
              (isASCII x \<and> p = params_envPrefix (WithEnvPrefix lib x params))"
  shows "getEnvVarName lib sf p =
           (if p \<noteq> []
            then ToUpper (unicode_ToUpper lib) p @ ''_'' @ ToUpper (unicode_ToUpper lib) K
            else ToUpper (unicode_ToUpper lib) K) \<and>
         (\<forall>env fs fs' tr path v.
            loadStructFromEnv lib env fs p = (fs', tr, None) \<and>
            fieldAt fs path = Some (sf, v) \<and> settableAt fs path \<and> isScalar v \<longrightarrow>
              EvLookupEnv (getEnvVarName lib sf p) \<in> set tr)"
proof (intro conjI allI impI)
  have "ToUpper (unicode_ToUpper lib) p = p" using pre by (rule stored_prefix_upper)
  then show "getEnvVarName lib sf p =
           (if p \<noteq> []
            then ToUpper (unicode_ToUpper lib) p @ ''_'' @ ToUpper (unicode_ToUpper lib) K
            else ToUpper (unicode_ToUpper lib) K)"
    using tag by (simp add: getEnvVarName_def)
next
  fix env fs fs' tr path v
  assume h: "loadStructFromEnv lib env fs p = (fs', tr, None) \<and>
            fieldAt fs path = Some (sf, v) \<and> settableAt fs path \<and> isScalar v"
  then have run: "loadStructFromEnv lib env fs p = (fs', tr, None)"
    and at: "fieldAt fs path = Some (sf, v)" and settable: "settableAt fs path"
    and sc: "isScalar v"
    by simp_all
  from load_settable_leaf [OF at settable run] obtain f' tr1 where
    can: "CanSet sf" and
    fld: "loadStructFromEnv_field lib env (sf, v) p = (f', tr1, None)" and
    sub: "set tr1 \<subseteq> set tr"
    by blast
  have "tr1 = [EvLookupEnv (getEnvVarName lib sf p)]"
    using can sc fld by (rule load_leaf_trace)
  with sub show "EvLookupEnv (getEnvVarName lib sf p) \<in> set tr" by simp
qed

theorem C3_env_var_name_witness:
  "getEnvVarName example_lib (example_field ''Value'' ''v'')
       (params_envPrefix (WithEnvPrefix example_lib ''test_'' defaultParameters)) = ''TEST_V'' \<and>
   loadStructFromEnv example_lib Map.empty
       [(\<lparr>Name = ''Outer'', PkgPath = [], Tag = []\<rparr>,
         VStruct [(\<lparr>Name = ''Inner'', PkgPath = [], Tag = []\<rparr>,
                   VStruct [(example_field ''Value'' ''v'', VString [])])])]
       (params_envPrefix (WithEnvPrefix example_lib ''test_'' defaultParameters)) =
     ([(\<lparr>Name = ''Outer'', PkgPath = [], Tag = []\<rparr>,
        VStruct [(\<lparr>Name = ''Inner'', PkgPath = [], Tag = []\<rparr>,
                  VStruct [(example_field ''Value'' ''v'', VString [])])])],
      [EvLookupEnv ''TEST_V''], None) \<and>
   loadStructFromEnv example_lib Map.empty
       [(example_field ''Value'' ''v'', VString [])]
       (params_envPrefix (WithEnvPrefix example_lib ''test_'' defaultParameters)) =
     ([(example_field ''Value'' ''v'', VString [])], [EvLookupEnv ''TEST_V''], None)"
proof -
  let ?p = "params_envPrefix (WithEnvPrefix example_lib ''test_'' defaultParameters)"
  let ?sf = "example_field ''Value'' ''v''"
  let ?fs = "[(\<lparr>Name = ''Outer'', PkgPath = [], Tag = []\<rparr>,
         VStruct [(\<lparr>Name = ''Inner'', PkgPath = [], Tag = []\<rparr>,
                   VStruct [(?sf, VString [] :: unit val)])])]"
  have p: "?p = ''TEST''" by (simp add: eval_defs)
  have tag: "Tag_Get (Tag ?sf) ''env'' = ''v''" by (simp add: eval_defs)
  have ne: "''v'' \<noteq> []" by simp
  have pre: "?p = params_envPrefix defaultParameters \<or>
             (isASCII ''test_'' \<and> ?p = params_envPrefix (WithEnvPrefix example_lib ''test_'' defaultParameters))"
    by (simp add: isASCII_def byte_def)
  have run: "loadStructFromEnv example_lib Map.empty ?fs ?p = (?fs, [EvLookupEnv ''TEST_V''], None)"
    unfolding p by (simp add: eval_defs)
  have run1: "loadStructFromEnv example_lib Map.empty [(?sf, VString [])] ?p =
                ([(?sf, VString [])], [EvLookupEnv ''TEST_V''], None)"
    unfolding p by (simp add: eval_defs)
  have at: "fieldAt ?fs [0, 0, 0] = Some (?sf, VString [])" by simp
  have settable: "settableAt ?fs [0, 0, 0]" by (simp add: eval_defs)
  have sc: "isScalar (VString [] :: unit val)" by (simp add: isScalar_def)
  note c3 = C3_env_var_name [OF tag ne pre]
  from c3 [THEN conjunct1] have name: "getEnvVarName example_lib ?sf ?p = ''TEST_V''"
    unfolding p by (simp add: eval_defs)
  from c3 [THEN conjunct2, rule_format, OF conjI [OF run conjI [OF at conjI [OF settable sc]]]]
  have "EvLookupEnv (getEnvVarName example_lib ?sf ?p) \<in> set [EvLookupEnv ''TEST_V'']" .
  with name run run1 show ?thesis by simp
qed

subsection \<open>C4: overflow of a narrow integer field\<close>

lemma setFieldFromEnv_int_not_literal:
  assumes "intLiteral s = None"
  shows "\<exists>e. setFieldFromEnv lib (VInt w x) s = Inl (NumError ''ParseInt'' s e)"
  using ParseInt_not_literal [OF assms, of 64] by auto

lemma setFieldFromEnv_int_overflow_64:
  assumes "intLiteral s = Some y" and "\<not> fitsSigned 64 y"
  shows "setFieldFromEnv lib (VInt w x) s = Inl (NumError ''ParseInt'' s ErrRange)"
  using ParseInt_literal [OF assms(1), of 64] assms(2) by simp

lemma setFieldFromEnv_int_fits_64:
  assumes "intLiteral s = Some y" and "fitsSigned 64 y"
  shows "setFieldFromEnv lib (VInt w x) s = Inr (SetInt lib w y)"
  using ParseInt_literal [OF assms(1), of 64] assms(2) by simp

text \<open>
  C4 says that a base-10 literal that overflows the declared width of a signed integer
  field makes the pass return an error. The parser is called with bit size 64 for every
  width, and \<^verbatim>\<open>SetInt\<close> truncates: for an \<^verbatim>\<open>int8\<close> field with the key \<open>V\<close>, the
  empty prefix and \<^verbatim>\<open>V=300\<close> in the environment, the pass returns no error and leaves
  44 in the field. (A value that is no literal, and a literal outside 64 bits, are
  errors for every width: the three lemmas above.)
\<close>

theorem C4_int8_overflow_is_truncated:
  "loadStructFromEnv example_lib [''V'' \<mapsto> ''300'']
       [(example_field ''Level'' ''V'', VInt Bits8 0)] [] =
     ([(example_field ''Level'' ''V'', VInt Bits8 44)], [EvLookupEnv ''V''], None)"
  by (simp add: eval_defs)

subsection \<open>C5: the pass stops at the first failure\<close>

lemma load_fail_leaf:
  assumes "loadStructFromEnv lib env pre p = (pre', tr, None)" and "CanSet sf"
    and "isScalar v" and "LookupEnv env (getEnvVarName lib sf p) = Some s"
    and "setFieldFromEnv lib v s = Inl err"
  shows "loadStructFromEnv lib env (pre @ (sf, v) # post) p =
           (pre' @ (sf, v) # post, tr @ [EvLookupEnv (getEnvVarName lib sf p)],
            Some (SetFieldError (Name sf) (getEnvVarName lib sf p) err))"
  using assms by (simp add: load_append load_field_leaf)

lemma load_fail_nested:
  assumes "loadStructFromEnv lib env pre p = (pre', tr, None)" and "CanSet sf"
    and "loadStructFromEnv lib env inner p = (inner', tr', Some e)"
  shows "loadStructFromEnv lib env (pre @ (sf, VStruct inner) # post) p =
           (pre' @ (sf, VStruct inner') # post, tr @ tr', Some e)"
  using assms by (simp add: load_append load_field_struct)

text \<open>
  C5: when parsing the value of a field fails, the pass stops at once and returns an
  error that names the field and the variable; what was written before stays, what
  comes after is not touched. Stated on a record \<open>pre @ (sf, v) # post\<close> whose fields
  \<open>pre\<close> the pass gets through (leaving \<open>pre'\<close>, with the lookups \<open>tr\<close>): if the
  settable scalar field \<open>(sf, v)\<close> has its variable set to a value that
  \<^verbatim>\<open>setFieldFromEnv\<close> rejects, the result is \<open>pre'\<close>, the field and \<open>post\<close> as they
  were, the lookups up to that of this variable and none after, and the error with the
  name of the field and of the variable; if \<open>v\<close> is a nested record in which the pass
  fails, the result is \<open>pre'\<close>, the nested record as the failing pass left it, \<open>post\<close>
  as it was, and the same error. Every error of the pass has the form
  \<open>SetFieldError name variable cause\<close>, and the lookup of that variable is the last
  thing the pass did.
\<close>

theorem C5_fail_fast:
  assumes "loadStructFromEnv lib env pre p = (pre', tr, None)" and "CanSet sf"
  shows "(isScalar v \<and> LookupEnv env (getEnvVarName lib sf p) = Some s \<and>
          setFieldFromEnv lib v s = Inl err \<longrightarrow>
            loadStructFromEnv lib env (pre @ (sf, v) # post) p =
              (pre' @ (sf, v) # post, tr @ [EvLookupEnv (getEnvVarName lib sf p)],
               Some (SetFieldError (Name sf) (getEnvVarName lib sf p) err))) \<and>
         (loadStructFromEnv lib env inner p = (inner', tr', Some e) \<longrightarrow>
            loadStructFromEnv lib env (pre @ (sf, VStruct inner) # post) p =
              (pre' @ (sf, VStruct inner') # post, tr @ tr', Some e)) \<and>
         (\<forall>fs fs' tr'' e'. loadStructFromEnv lib env fs p = (fs', tr'', Some e') \<longrightarrow>
            (\<exists>n var cause. e' = SetFieldError n var cause \<and> tr'' \<noteq> [] \<and>
                            last tr'' = EvLookupEnv var))"
proof (intro conjI impI allI)
  assume "isScalar v \<and> LookupEnv env (getEnvVarName lib sf p) = Some s \<and>
          setFieldFromEnv lib v s = Inl err"
  then show "loadStructFromEnv lib env (pre @ (sf, v) # post) p =
               (pre' @ (sf, v) # post, tr @ [EvLookupEnv (getEnvVarName lib sf p)],
                Some (SetFieldError (Name sf) (getEnvVarName lib sf p) err))"
    using load_fail_leaf [OF assms] by simp
next
  assume "loadStructFromEnv lib env inner p = (inner', tr', Some e)"
  then show "loadStructFromEnv lib env (pre @ (sf, VStruct inner) # post) p =
               (pre' @ (sf, VStruct inner') # post, tr @ tr', Some e)"
    by (rule load_fail_nested [OF assms])
next
  fix fs fs' tr'' e'
  assume "loadStructFromEnv lib env fs p = (fs', tr'', Some e')"
  then show "\<exists>n var cause. e' = SetFieldError n var cause \<and> tr'' \<noteq> [] \<and>
                            last tr'' = EvLookupEnv var"
    by (rule load_error_form(1))
qed

theorem C5_fail_fast_witness:
  "loadStructFromEnv example_lib [''HOST'' \<mapsto> ''db'', ''PORT'' \<mapsto> ''notanumber'', ''NAME'' \<mapsto> ''x'']
       ([(example_field ''Host'' ''HOST'', VString ''localhost'')] @
        (example_field ''Port'' ''PORT'', VInt Native 3000) #
        [(example_field ''Name'' ''NAME'', VString ''old'')]) [] =
     ([(example_field ''Host'' ''HOST'', VString ''db'')] @
      (example_field ''Port'' ''PORT'', VInt Native 3000) #
      [(example_field ''Name'' ''NAME'', VString ''old'')],
      [EvLookupEnv ''HOST''] @ [EvLookupEnv ''PORT''],
      Some (SetFieldError ''Port'' ''PORT'' (NumError ''ParseInt'' ''notanumber'' ErrSyntax)))"
proof -
  let ?env = "[''HOST'' \<mapsto> ''db'', ''PORT'' \<mapsto> ''notanumber'', ''NAME'' \<mapsto> ''x'']"
  let ?sf = "example_field ''Port'' ''PORT''"
  have pre: "loadStructFromEnv example_lib ?env
               [(example_field ''Host'' ''HOST'', VString ''localhost'')] [] =
             ([(example_field ''Host'' ''HOST'', VString ''db'')], [EvLookupEnv ''HOST''], None)"
    by (simp add: eval_defs)
  have can: "CanSet ?sf" by (simp add: eval_defs)
  have name: "getEnvVarName example_lib ?sf [] = ''PORT''" by (simp add: eval_defs)
  have sc: "isScalar (VInt Native 3000 :: unit val)" by (simp add: isScalar_def)
  have look: "LookupEnv ?env (getEnvVarName example_lib ?sf []) = Some ''notanumber''"
    by (simp add: name) (simp add: LookupEnv_def)
  have bad: "setFieldFromEnv example_lib (VInt Native 3000) ''notanumber'' =
               Inl (NumError ''ParseInt'' ''notanumber'' ErrSyntax)"
    by (simp add: eval_defs)
  have nm: "Name ?sf = ''Port''" by (simp add: example_field_def)
  have r: "loadStructFromEnv example_lib ?env
             ([(example_field ''Host'' ''HOST'', VString ''localhost'')] @
              (?sf, VInt Native 3000) #
              [(example_field ''Name'' ''NAME'', VString ''old'')]) [] =
           ([(example_field ''Host'' ''HOST'', VString ''db'')] @
            (?sf, VInt Native 3000) #
            [(example_field ''Name'' ''NAME'', VString ''old'')],
            [EvLookupEnv ''HOST''] @ [EvLookupEnv (getEnvVarName example_lib ?sf [])],
            Some (SetFieldError (Name ?sf) (getEnvVarName example_lib ?sf [])
                    (NumError ''ParseInt'' ''notanumber'' ErrSyntax)))"
    using C5_fail_fast [OF pre can, THEN conjunct1, rule_format,
        OF conjI [OF sc conjI [OF look bad]]] .
  show ?thesis using r unfolding name nm .
qed

subsection \<open>C6: Load validates its argument first\<close>

text \<open>
  C6: for an argument that is nil, not a pointer, a nil pointer, or a pointer to a
  value that is no struct, \<^verbatim>\<open>Load\<close> returns the validation error, wrapped as
  "invalid config", with no file read and no environment lookup (the list of events is
  empty), and the argument is as it was.
\<close>

theorem C6_Load_validates_first:
  assumes "cfg = NilInterface \<or> (\<exists>v. cfg = Value v) \<or> cfg = NilPointer \<or>
           (\<exists>v. cfg = PointerTo v \<and> Kind_of v \<noteq> Struct)"
  shows "\<exists>err. Load lib os cfg paramsActions = (cfg, [], Some (InvalidConfig err))"
  using assms by (auto simp: Load_def)

theorem C6_Load_validates_first_witness:
  "Load example_lib \<lparr>files = (\<lambda>name. Contents ''port: 1''), environ = [''APP_PORT'' \<mapsto> ''2'']\<rparr>
       (Value (VStruct [(example_field ''Port'' ''PORT'', VInt Native 0)])) [] =
     (Value (VStruct [(example_field ''Port'' ''PORT'', VInt Native 0)]), [],
      Some (InvalidConfig (Errorf ''config must be a pointer to struct'')))"
proof -
  let ?cfg = "Value (VStruct [(example_field ''Port'' ''PORT'', VInt Native 0)]) :: unit any"
  have h: "?cfg = NilInterface \<or> (\<exists>v. ?cfg = Value v) \<or> ?cfg = NilPointer \<or>
           (\<exists>v. ?cfg = PointerTo v \<and> Kind_of v \<noteq> Struct)" by simp
  from C6_Load_validates_first [OF h, of example_lib
      "\<lparr>files = (\<lambda>name. Contents ''port: 1''), environ = [''APP_PORT'' \<mapsto> ''2'']\<rparr>" "[]"]
  show ?thesis by (simp add: Load_def)
qed

subsection \<open>C7: normalisation of the prefix\<close>

text \<open>
  C7 says that the normalisation is idempotent for every input string.
  \<^verbatim>\<open>strings.TrimSuffix\<close> removes one underscore, not all of them: the prefix
  \<open>a__\<close> is stored as \<open>A_\<close>, and \<open>A_\<close> given again is stored as \<open>A\<close>.
\<close>

theorem C7_counterexample:
  "params_envPrefix (WithEnvPrefix example_lib ''a__'' defaultParameters) = ''A_'' \<and>
   params_envPrefix (WithEnvPrefix example_lib ''A_'' defaultParameters) = ''A''"
  by (simp add: eval_defs)

text \<open>
  C7, amended: for an ASCII input that does not end in two underscores, the stored
  prefix given again to \<^verbatim>\<open>WithEnvPrefix\<close> is stored unchanged; and two ASCII inputs
  that differ only in letter case are stored as the same prefix.
\<close>

theorem C7_normalization:
  assumes "isASCII x"
  shows "(\<not> HasSuffix x ''__'' \<longrightarrow>
            params_envPrefix
              (WithEnvPrefix lib (params_envPrefix (WithEnvPrefix lib x params)) params') =
            params_envPrefix (WithEnvPrefix lib x params)) \<and>
         (differOnlyInCase x y \<longrightarrow>
            params_envPrefix (WithEnvPrefix lib y params) =
            params_envPrefix (WithEnvPrefix lib x params))"
proof (intro conjI impI)
  assume "\<not> HasSuffix x ''__''"
  then have "\<not> HasSuffix (ToUpper (unicode_ToUpper lib) x) ''__''"
    using assms by (simp add: HasSuffix_upper_double)
  with assms show "params_envPrefix
              (WithEnvPrefix lib (params_envPrefix (WithEnvPrefix lib x params)) params') =
            params_envPrefix (WithEnvPrefix lib x params)"
    by (simp add: WithEnvPrefix_def normalize_idem)
next
  assume "differOnlyInCase x y"
  with assms show "params_envPrefix (WithEnvPrefix lib y params) =
            params_envPrefix (WithEnvPrefix lib x params)"
    by (simp add: WithEnvPrefix_def normalize_case_insensitive)
qed

theorem C7_normalization_witness:
  "params_envPrefix (WithEnvPrefix example_lib ''app_'' defaultParameters) = ''APP'' \<and>
   params_envPrefix (WithEnvPrefix example_lib ''APP'' defaultParameters) = ''APP'' \<and>
   params_envPrefix (WithEnvPrefix example_lib ''App_'' defaultParameters) = ''APP''"
proof -
  have a: "isASCII ''app_''" by (simp add: isASCII_def byte_def)
  have n: "\<not> HasSuffix ''app_'' ''__''" by (simp add: HasSuffix_def)
  have d: "differOnlyInCase ''app_'' ''App_''" by (simp add: literal_defs byte_def)
  have v: "params_envPrefix (WithEnvPrefix example_lib ''app_'' defaultParameters) = ''APP''"
    by (simp add: eval_defs)
  note c7 = C7_normalization [OF a, of example_lib defaultParameters defaultParameters "''App_''"]
  from c7 [THEN conjunct1, rule_format, OF n] c7 [THEN conjunct2, rule_format, OF d] v
  show ?thesis by simp
qed

subsection \<open>C8: the pass is idempotent\<close>

text \<open>
  C8: for every record, prefix and environment on which the pass succeeds, running it
  again on the record it left, with the same environment, leaves that record as it is
  (and succeeds, with the same lookups).
\<close>

theorem C8_pass_idempotent:
  assumes "loadStructFromEnv lib env fs p = (fs', tr, None)"
  shows "loadStructFromEnv lib env fs' p = (fs', tr, None)"
  using assms by (rule load_idem(1))

theorem C8_pass_idempotent_witness:
  "loadStructFromEnv example_lib [''APP_PORT'' \<mapsto> ''8080'']
       [(example_field ''Port'' ''port'', VInt Native 3000)] ''APP'' =
     ([(example_field ''Port'' ''port'', VInt Native 8080)], [EvLookupEnv ''APP_PORT''], None) \<and>
   loadStructFromEnv example_lib [''APP_PORT'' \<mapsto> ''8080'']
       [(example_field ''Port'' ''port'', VInt Native 8080)] ''APP'' =
     ([(example_field ''Port'' ''port'', VInt Native 8080)], [EvLookupEnv ''APP_PORT''], None)"
proof -
  have h: "loadStructFromEnv example_lib [''APP_PORT'' \<mapsto> ''8080'']
             [(example_field ''Port'' ''port'', VInt Native 3000)] ''APP'' =
           ([(example_field ''Port'' ''port'', VInt Native 8080)],
            [EvLookupEnv ''APP_PORT''], None)"
    by (simp add: eval_defs)
  from C8_pass_idempotent [OF h] h show ?thesis by simp
qed

subsection \<open>C9: the boolean tokens\<close>

text \<open>
  C9: for a boolean field, the value is accepted exactly when it is one of the twelve
  tokens: "1", "t", "T", "TRUE", "true", "True" give true, "0", "f", "F", "FALSE",
  "false", "False" give false, and every other string is a parse error.
\<close>

theorem C9_bool_tokens:
  "setFieldFromEnv lib (VBool b) v =
     (if v \<in> {''1'', ''t'', ''T'', ''TRUE'', ''true'', ''True''} then Inr (VBool True)
      else if v \<in> {''0'', ''f'', ''F'', ''FALSE'', ''false'', ''False''} then Inr (VBool False)
      else Inl (NumError ''ParseBool'' v ErrSyntax))"
  by (simp add: ParseBool_def)

theorem C9_bool_tokens_witness:
  "setFieldFromEnv example_lib (VBool False) ''TRUE'' = Inr (VBool True) \<and>
   setFieldFromEnv example_lib (VBool True) ''f'' = Inr (VBool False) \<and>
   setFieldFromEnv example_lib (VBool True) ''yes'' = Inl (NumError ''ParseBool'' ''yes'' ErrSyntax)"
  using C9_bool_tokens [of example_lib False "''TRUE''"]
        C9_bool_tokens [of example_lib True "''f''"]
        C9_bool_tokens [of example_lib True "''yes''"]
  by simp

subsection \<open>C10: fields that cannot be set\<close>

text \<open>
  C10: a field that is not settable (not exported) is skipped whole. Stated on a record
  \<open>pre @ (sf, v) # post\<close> with such a field: the pass does on it what it does on
  \<open>pre @ post\<close>, the record without the field: the same values in the other fields,
  the same lookups in the same order (none for \<open>sf\<close>, whatever its tag and the
  environment; none for the fields inside \<open>v\<close> when it is a record), the same error;
  and the field is as it was.
\<close>

theorem C10_unexported_skipped:
  assumes "\<not> CanSet sf" and "loadStructFromEnv lib env (pre @ post) p = (r, tr, e)"
  shows "loadStructFromEnv lib env (pre @ (sf, v) # post) p =
           (take (length pre) r @ (sf, v) # drop (length pre) r, tr, e)"
  using assms by (rule load_skip_unexported)

theorem C10_unexported_skipped_witness:
  "loadStructFromEnv example_lib [''SECRET'' \<mapsto> ''leak'', ''INNER'' \<mapsto> ''bad'', ''NAME'' \<mapsto> ''new'']
       ([] @ (\<lparr>Name = ''secret'', PkgPath = ''main'', Tag = [(''env'', ''SECRET'')]\<rparr>,
               VStruct [(example_field ''Inner'' ''INNER'', VInt Native 1)]) #
        [(example_field ''Name'' ''NAME'', VString ''old'')]) [] =
     ([(\<lparr>Name = ''secret'', PkgPath = ''main'', Tag = [(''env'', ''SECRET'')]\<rparr>,
        VStruct [(example_field ''Inner'' ''INNER'', VInt Native 1)]),
       (example_field ''Name'' ''NAME'', VString ''new'')],
      [EvLookupEnv ''NAME''], None)"
proof -
  let ?env = "[''SECRET'' \<mapsto> ''leak'', ''INNER'' \<mapsto> ''bad'', ''NAME'' \<mapsto> ''new'']"
  let ?sf = "\<lparr>Name = ''secret'', PkgPath = ''main'', Tag = [(''env'', ''SECRET'')]\<rparr>"
  have no: "\<not> CanSet ?sf" by (simp add: CanSet_def IsExported_def)
  have h: "loadStructFromEnv example_lib ?env
             ([] @ [(example_field ''Name'' ''NAME'', VString ''old'')]) [] =
           ([(example_field ''Name'' ''NAME'', VString ''new'')], [EvLookupEnv ''NAME''], None)"
    by (simp add: eval_defs)
  from C10_unexported_skipped [OF no h] show ?thesis by simp
qed

end
